theory Spec2Isabelle
  imports Main "HOL-Library.Char_ord" "HOL-Library.List_Lexorder" "HOL-Library.Multiset"
begin

section \<open>Strings\<close>

text \<open>
  A Python \<open>str\<close> is modelled as a \<open>string\<close> whose characters are the code points
  below 256. On these, Python's comparison of strings (code point by code point, a proper
  prefix first) is the lexicographic order of \<open>HOL-Library.List_Lexorder\<close> over the
  character order of \<open>HOL-Library.Char_ord\<close>.
\<close>

definition endswith :: "string \<Rightarrow> string \<Rightarrow> bool" where
  "endswith s suf = (length suf \<le> length s \<and> drop (length s - length suf) s = suf)"

text \<open>\<open>s.rstrip('/')\<close>: every trailing \<open>/\<close> is removed.\<close>

definition rstrip_slash :: "string \<Rightarrow> string" where
  "rstrip_slash s = rev (dropWhile (\<lambda>c. c = CHR ''/'') (rev s))"

definition is_digit :: "char \<Rightarrow> bool" where
  "is_digit c = (CHR ''0'' \<le> c \<and> c \<le> CHR ''9'')"

section \<open>Names built from the language code\<close>

text \<open>
  \<open>discover_shard_files\<close>, lines 217 to 220: the subdirectory of a language. The branch
  for \<open>simple\<close> is kept as the source writes it.
\<close>

definition subdir_name :: "string \<Rightarrow> string" where
  "subdir_name lang =
     (if lang = ''simple'' then ''index_name=simplewiki_content''
      else ''index_name='' @ lang @ ''wiki_content'')"

text \<open>\<open>main\<close>, lines 452 to 455: the name of the output file.\<close>

definition output_filename :: "string \<Rightarrow> string \<Rightarrow> string" where
  "output_filename lang dump_date =
     (if lang = ''simple'' then ''simplewiki-'' @ dump_date @ ''-cirrussearch-content.json.gz''
      else lang @ ''wiki-'' @ dump_date @ ''-cirrussearch-content.json.gz'')"

section \<open>The directory listing parser\<close>

text \<open>
  \<open>HTMLParser.feed\<close> calls \<open>handle_starttag(tag, attrs)\<close> once for every start tag of
  the document, in document order, with the tag and attribute names in lower case and an
  attribute without a value carrying \<open>None\<close>. A document is modelled by this sequence of
  calls; the tokenizer itself belongs to the standard library.
\<close>

type_synonym attr = "string \<times> string option"
type_synonym start_tag = "string \<times> attr list"

record DirectoryListingParser =
  files :: "string list"
  directories :: "string list"

definition new_parser :: DirectoryListingParser where
  "new_parser = \<lparr>files = [], directories = []\<rparr>"

text \<open>The body of the loop over \<open>attrs\<close>, lines 104 to 114.\<close>

definition handle_attr :: "DirectoryListingParser \<Rightarrow> attr \<Rightarrow> DirectoryListingParser" where
  "handle_attr p a =
     (case a of (attr_name, attr_value) \<Rightarrow>
        (case attr_value of
           None \<Rightarrow> p
         | Some v \<Rightarrow>
             if attr_name = ''href'' \<and> v \<noteq> [] then
               if v \<noteq> ''../'' \<and> v \<noteq> ''./'' then
                 if endswith v ''/'' then
                   (let dir_name = rstrip_slash v
                    in if dir_name \<noteq> [] then p\<lparr>directories := directories p @ [dir_name]\<rparr>
                       else p)
                 else p\<lparr>files := files p @ [v]\<rparr>
               else p
             else p))"

definition handle_starttag :: "DirectoryListingParser \<Rightarrow> start_tag \<Rightarrow> DirectoryListingParser" where
  "handle_starttag p t =
     (case t of (tag, attrs) \<Rightarrow> if tag = ''a'' then foldl handle_attr p attrs else p)"

definition feed :: "DirectoryListingParser \<Rightarrow> start_tag list \<Rightarrow> DirectoryListingParser" where
  "feed p doc = foldl handle_starttag p doc"

text \<open>The hyperlink targets of a document: the values of the \<open>href\<close> attributes of its
  anchor tags, in document order.\<close>

definition hrefs :: "start_tag list \<Rightarrow> string list" where
  "hrefs doc =
     concat (map (\<lambda>(tag, attrs).
       if tag = ''a''
       then concat (map (\<lambda>(n, v). case v of None \<Rightarrow> [] | Some x \<Rightarrow> if n = ''href'' then [x] else []) attrs)
       else []) doc)"

text \<open>A target is a marker of the current or the parent directory.\<close>

definition is_marker :: "string \<Rightarrow> bool" where
  "is_marker v = (v = ''../'' \<or> v = ''./'')"

definition only_slashes :: "string \<Rightarrow> bool" where
  "only_slashes v = list_all (\<lambda>c. c = CHR ''/'') v"

text \<open>The two filters that the theorems use to describe where a target goes.\<close>

definition placed_file :: "string \<Rightarrow> bool" where
  "placed_file v = (v \<noteq> [] \<and> \<not> is_marker v \<and> \<not> endswith v ''/'')"

definition placed_dir :: "string \<Rightarrow> bool" where
  "placed_dir v = (v \<noteq> [] \<and> \<not> is_marker v \<and> endswith v ''/'' \<and> \<not> only_slashes v)"

definition attr_hrefs :: "attr list \<Rightarrow> string list" where
  "attr_hrefs attrs =
     concat (map (\<lambda>(n, v). case v of None \<Rightarrow> [] | Some x \<Rightarrow> if n = ''href'' then [x] else []) attrs)"

section \<open>The network\<close>

text \<open>
  What \<open>urllib.request.urlopen(url)\<close> followed by \<open>response.read().decode('utf-8')\<close>
  gives for a URL: an \<open>HTTPError\<close> with its status code, any other exception (an
  \<open>URLError\<close>, a timeout, bytes that are not UTF-8), or a document. Every call is
  written to a log of the requested URLs, so that a theorem can say which requests a
  function made.
\<close>

datatype response = HTTPError nat | Unreachable | Document "start_tag list"

type_synonym network = "string \<Rightarrow> response"

definition urlopen :: "network \<Rightarrow> string \<Rightarrow> string list \<Rightarrow> response \<times> string list" where
  "urlopen net url log = (net url, log @ [url])"

text \<open>
  Every failure of the source is a \<open>ValueError\<close>; the constructors tell the places that
  raise it apart (the text of the message is not modelled):
  \<^item> \<open>FailedToAccess code\<close>: lines 143 and 310, an HTTP error with its status;
  \<^item> \<open>ErrorFindingLatestDate\<close>: line 145, with the cause it wraps;
  \<^item> \<open>ErrorDiscoveringShards\<close>: line 312, with the cause it wraps;
  \<^item> \<open>NotFoundDiagnostic\<close>: line 308, after a 404 and a retry that found no shard.
\<close>

datatype cause = NoDatesFound | NoShardsFound | OtherException

datatype error =
    FailedToAccess nat
  | ErrorFindingLatestDate cause
  | ErrorDiscoveringShards cause
  | NotFoundDiagnostic

section \<open>The date selector\<close>

definition newline :: char where
  "newline = CHR 0x0A"

text \<open>
  \<open>re.compile(r'^\d{8}$').match(d)\<close>. On code points below 256 \<open>\d\<close> is an ASCII digit,
  and Python's \<open>$\<close> matches at the end of the string and also just before a newline
  that ends the string.
\<close>

definition date_pattern_match :: "string \<Rightarrow> bool" where
  "date_pattern_match d =
     (length (take 8 d) = 8 \<and> list_all is_digit (take 8 d) \<and>
      (drop 8 d = [] \<or> drop 8 d = [newline]))"

definition find_latest_date :: "network \<Rightarrow> string \<Rightarrow> error + string" where
  "find_latest_date net base_url =
     (case net base_url of
        HTTPError code \<Rightarrow> Inl (FailedToAccess code)
      | Unreachable \<Rightarrow> Inl (ErrorFindingLatestDate OtherException)
      | Document doc \<Rightarrow>
          (let parser = feed new_parser doc;
               dates = filter date_pattern_match (directories parser)
           in if dates = [] then Inl (ErrorFindingLatestDate NoDatesFound)
              else Inr (last (sort dates))))"

section \<open>The shard locator\<close>

text \<open>
  \<open>urllib.parse.quote(s, safe='/')\<close>: the letters, the digits, \<open>_.-~\<close> and \<open>/\<close> stay, and
  every other character becomes \<open>%XX\<close> for each byte of its UTF-8 encoding, in upper case
  hexadecimal. A code point from 128 to 255 has two bytes.
\<close>

definition is_unreserved :: "char \<Rightarrow> bool" where
  "is_unreserved c =
     ((CHR ''A'' \<le> c \<and> c \<le> CHR ''Z'') \<or> (CHR ''a'' \<le> c \<and> c \<le> CHR ''z'') \<or> is_digit c \<or>
      c = CHR ''_'' \<or> c = CHR ''.'' \<or> c = CHR ''-'' \<or> c = CHR ''~'')"

definition hex_digit :: "nat \<Rightarrow> char" where
  "hex_digit n = ''0123456789ABCDEF'' ! n"

definition percent :: "nat \<Rightarrow> string" where
  "percent b = [CHR ''%'', hex_digit (b div 16), hex_digit (b mod 16)]"

definition utf8 :: "char \<Rightarrow> nat list" where
  "utf8 c = (let n = (of_char c :: nat) in if n < 128 then [n] else [192 + n div 64, 128 + n mod 64])"

definition quote_char :: "char \<Rightarrow> string" where
  "quote_char c = (if is_unreserved c \<or> c = CHR ''/'' then [c] else concat (map percent (utf8 c)))"

definition quote :: "string \<Rightarrow> string" where
  "quote s = concat (map quote_char s)"

text \<open>Lines 238 and 270: the shard files of a listing, filtered and sorted.\<close>

definition shard_files_of :: "start_tag list \<Rightarrow> string list" where
  "shard_files_of doc =
     sort (filter (\<lambda>f. endswith f ''.json.bz2'') (files (feed new_parser doc)))"

text \<open>
  \<open>list_available_indexes\<close> requests the listing of the date directory and swallows every
  failure. The list it returns only enters the message of the \<open>ValueError\<close> raised after
  it, so the model keeps its request and nothing else.
\<close>

definition list_available_indexes :: "network \<Rightarrow> string \<Rightarrow> string list \<Rightarrow> string list" where
  "list_available_indexes net base_url log = snd (urlopen net base_url log)"

text \<open>
  \<open>discover_shard_files\<close>, lines 214 to 312. The result is the value returned or the
  \<open>ValueError\<close> raised, with the log of the requests made. The argument \<open>date\<close> only
  enters a message.
\<close>

definition discover_shard_files ::
  "network \<Rightarrow> string \<Rightarrow> string \<Rightarrow> string \<Rightarrow> (error + string list) \<times> string list" where
  "discover_shard_files net base_url lang date =
     (let subdir = subdir_name lang;
          dir_url = base_url @ subdir @ ''/''
      in case urlopen net dir_url [] of (r, log1) \<Rightarrow>
        (case r of
           Document doc \<Rightarrow>
             (let shard_files = shard_files_of doc
              in if shard_files = []
                 then (Inl (ErrorDiscoveringShards NoShardsFound),
                       list_available_indexes net base_url log1)
                 else (Inr (map (\<lambda>f. base_url @ subdir @ ''/'' @ f) shard_files), log1))
         | Unreachable \<Rightarrow> (Inl (ErrorDiscoveringShards OtherException), log1)
         | HTTPError code \<Rightarrow>
             if code = 404 then
               (let encoded_subdir = quote subdir;
                    encoded_dir_url = base_url @ encoded_subdir @ ''/''
                in case urlopen net encoded_dir_url log1 of (r2, log2) \<Rightarrow>
                  (let shard_files = (case r2 of Document doc \<Rightarrow> shard_files_of doc | _ \<Rightarrow> [])
                   in if shard_files \<noteq> []
                      then (Inr (map (\<lambda>f. base_url @ encoded_subdir @ ''/'' @ f) shard_files), log2)
                      else (Inl NotFoundDiagnostic, list_available_indexes net base_url log2)))
             else (Inl (FailedToAccess code), log1)))"

section \<open>The file system\<close>

text \<open>
  A path is the list of its components, as \<open>pathlib\<close> splits it, and a byte is a \<open>char\<close>.
  The file system is the list of its regular files with their contents and the list of its
  directories. Every operation fails where the operating system fails: the failures are
  the exceptions of the source.
\<close>

type_synonym path = "string list"
type_synonym bytes = "char list"

record filesystem =
  fs_files :: "(path \<times> bytes) list"
  fs_dirs :: "path list"

datatype exn =
    FileExistsError | FileNotFoundError | IsADirectoryError | NotADirectoryError
  | DirectoryNotEmpty | EOFError | DownloadFailed | DecompressionError

definition read_file :: "filesystem \<Rightarrow> path \<Rightarrow> bytes option" where
  "read_file fs p = map_of (fs_files fs) p"

definition is_file :: "filesystem \<Rightarrow> path \<Rightarrow> bool" where
  "is_file fs p = (read_file fs p \<noteq> None)"

definition is_dir :: "filesystem \<Rightarrow> path \<Rightarrow> bool" where
  "is_dir fs p = (p \<in> set (fs_dirs fs))"

definition path_exists :: "filesystem \<Rightarrow> path \<Rightarrow> bool" where
  "path_exists fs p = (is_file fs p \<or> is_dir fs p)"

definition store :: "filesystem \<Rightarrow> path \<Rightarrow> bytes \<Rightarrow> filesystem" where
  "store fs p c = fs\<lparr>fs_files := (p, c) # filter (\<lambda>e. fst e \<noteq> p) (fs_files fs)\<rparr>"

text \<open>\<open>open(p, 'wb')\<close>, the writes and the close: the file holds \<open>c\<close> afterwards.\<close>

definition write_file :: "filesystem \<Rightarrow> path \<Rightarrow> bytes \<Rightarrow> exn + filesystem" where
  "write_file fs p c =
     (if is_dir fs p \<or> (p \<noteq> [] \<and> last p = ''..'') then Inl IsADirectoryError
      else if p = [] \<or> \<not> is_dir fs (butlast p) then Inl FileNotFoundError
      else Inr (store fs p c))"

text \<open>\<open>Path.mkdir(exist_ok=True)\<close>.\<close>

definition mkdir_exist_ok :: "filesystem \<Rightarrow> path \<Rightarrow> exn + filesystem" where
  "mkdir_exist_ok fs p =
     (if is_dir fs p then Inr fs
      else if is_file fs p then Inl FileExistsError
      else if p = [] \<or> \<not> is_dir fs (butlast p) then Inl FileNotFoundError
      else Inr (fs\<lparr>fs_dirs := p # fs_dirs fs\<rparr>))"

definition unlink :: "filesystem \<Rightarrow> path \<Rightarrow> exn + filesystem" where
  "unlink fs p =
     (if is_dir fs p then Inl IsADirectoryError
      else if \<not> is_file fs p then Inl FileNotFoundError
      else Inr (fs\<lparr>fs_files := filter (\<lambda>e. fst e \<noteq> p) (fs_files fs)\<rparr>))"

definition children :: "filesystem \<Rightarrow> path \<Rightarrow> path list" where
  "children fs d =
     remdups (filter (\<lambda>q. q \<noteq> [] \<and> butlast q = d) (map fst (fs_files fs) @ fs_dirs fs))"

definition rmdir :: "filesystem \<Rightarrow> path \<Rightarrow> exn + filesystem" where
  "rmdir fs p =
     (if \<not> is_dir fs p then Inl (if is_file fs p then NotADirectoryError else FileNotFoundError)
      else if children fs p \<noteq> [] then Inl DirectoryNotEmpty
      else Inr (fs\<lparr>fs_dirs := removeAll p (fs_dirs fs)\<rparr>))"

section \<open>Cleaning old dumps\<close>

text \<open>
  The pattern of \<open>Path.glob\<close>: \<open>*\<close> stands for any run of characters, every other
  character of this pattern for itself.
\<close>

datatype glob_item = Star | Lit char

fun glob_match :: "glob_item list \<Rightarrow> string \<Rightarrow> bool" where
  "glob_match [] s = (s = [])"
| "glob_match (Lit c # pat) [] = False"
| "glob_match (Lit c # pat) (x # s) = (c = x \<and> glob_match pat s)"
| "glob_match (Star # pat) [] = glob_match pat []"
| "glob_match (Star # pat) (x # s) = (glob_match pat (x # s) \<or> glob_match (Star # pat) s)"

definition dump_pattern :: "glob_item list" where
  "dump_pattern = Star # map Lit ''wiki-'' @ Star # map Lit ''-cirrussearch-content.json.gz''"

definition glob :: "filesystem \<Rightarrow> path \<Rightarrow> glob_item list \<Rightarrow> path list" where
  "glob fs d pat = filter (\<lambda>q. glob_match pat (last q)) (children fs d)"

text \<open>\<open>str.strip()\<close> and \<open>str.lower()\<close> on the code points below 256.\<close>

definition is_space :: "char \<Rightarrow> bool" where
  "is_space c =
     (let n = (of_char c :: nat)
      in (9 \<le> n \<and> n \<le> 13) \<or> (28 \<le> n \<and> n \<le> 32) \<or> n = 133 \<or> n = 160)"

definition py_strip :: "string \<Rightarrow> string" where
  "py_strip s = rev (dropWhile is_space (rev (dropWhile is_space s)))"

definition lower_char :: "char \<Rightarrow> char" where
  "lower_char c =
     (let n = (of_char c :: nat)
      in if (65 \<le> n \<and> n \<le> 90) \<or> (192 \<le> n \<and> n \<le> 222 \<and> n \<noteq> 215) then char_of (n + 32) else c)"

definition py_lower :: "string \<Rightarrow> string" where
  "py_lower s = map lower_char s"

text \<open>The loop of lines 168 to 174: the first file that cannot be deleted ends it.\<close>

fun unlink_each :: "filesystem \<Rightarrow> path list \<Rightarrow> bool \<times> filesystem" where
  "unlink_each fs [] = (True, fs)"
| "unlink_each fs (f # rest) =
     (case unlink fs f of Inl e \<Rightarrow> (False, fs) | Inr fs' \<Rightarrow> unlink_each fs' rest)"

text \<open>
  \<open>cleanup_old_dumps\<close>, lines 148 to 177. \<open>stdin\<close> is the line that \<open>input()\<close> would
  read, \<open>None\<close> at the end of the input. The result is the value returned or the exception
  raised, the file system afterwards, and whether \<open>input()\<close> was called.
\<close>

definition cleanup_old_dumps ::
  "path \<Rightarrow> bool \<Rightarrow> string option \<Rightarrow> filesystem \<Rightarrow> (exn + bool) \<times> filesystem \<times> bool" where
  "cleanup_old_dumps output_dir confirm stdin fs =
     (let dump_files = glob fs output_dir dump_pattern
      in if dump_files = [] then (Inr True, fs, False)
         else if confirm then
           (case stdin of
              None \<Rightarrow> (Inl EOFError, fs, True)
            | Some line \<Rightarrow>
                (let response = py_lower (py_strip line)
                 in if response \<noteq> ''yes'' \<and> response \<noteq> ''y'' then (Inr False, fs, True)
                    else (case unlink_each fs dump_files of (ok, fs') \<Rightarrow> (Inr ok, fs', True))))
         else (case unlink_each fs dump_files of (ok, fs') \<Rightarrow> (Inr ok, fs', False)))"

text \<open>
  \<open>main\<close>, lines 431 to 436: the process goes on, or exits with a status. An exception
  that nothing catches ends the process with status 1 as well.
\<close>

datatype outcome = Continue | Exit nat

definition main_clean ::
  "bool \<Rightarrow> bool \<Rightarrow> path \<Rightarrow> string option \<Rightarrow> filesystem \<Rightarrow> outcome \<times> filesystem" where
  "main_clean clean yes output_dir stdin fs =
     (if clean then
        (case cleanup_old_dumps output_dir (\<not> yes) stdin fs of (r, fs', prompted) \<Rightarrow>
           (case r of
              Inr ok \<Rightarrow> if \<not> ok then (Exit 1, fs') else (Continue, fs')
            | Inl e \<Rightarrow> (Exit 1, fs')))
      else (Continue, fs))"

text \<open>
  What the user answered to the prompt of line 163, as line 164 reads it, and the two
  readings of it that the theorems speak of.
\<close>

definition answer :: "string \<Rightarrow> string" where
  "answer line = py_lower (py_strip line)"

definition confirmed :: "string option \<Rightarrow> bool" where
  "confirmed stdin =
     (case stdin of None \<Rightarrow> False | Some line \<Rightarrow> answer line = ''yes'' \<or> answer line = ''y'')"

definition declined :: "string option \<Rightarrow> bool" where
  "declined stdin =
     (case stdin of None \<Rightarrow> False | Some line \<Rightarrow> answer line \<noteq> ''yes'' \<and> answer line \<noteq> ''y'')"

section \<open>The shard reassembler\<close>

text \<open>
  What \<open>download_dump\<close> meets at a URL: the whole content arrives, or the request or the
  transfer fails. \<open>urlretrieve\<close> opens the local file once the response has begun, so a
  transfer that breaks later leaves the bytes received so far in the file: \<open>Broken None\<close>
  fails before the file is opened, \<open>Broken (Some part)\<close> after \<open>part\<close> was written.
\<close>

datatype download = Retrieved bytes | Broken "bytes option"

type_synonym remote = "string \<Rightarrow> download"

text \<open>\<open>download_dump\<close>, lines 61 to 90: every exception becomes the result \<open>False\<close>.\<close>

definition download_dump :: "remote \<Rightarrow> string \<Rightarrow> path \<Rightarrow> filesystem \<Rightarrow> bool \<times> filesystem" where
  "download_dump remote url output_path fs =
     (case remote url of
        Retrieved c \<Rightarrow>
          (case write_file fs output_path c of Inl e \<Rightarrow> (False, fs) | Inr fs' \<Rightarrow> (True, fs'))
      | Broken None \<Rightarrow> (False, fs)
      | Broken (Some part) \<Rightarrow>
          (case write_file fs output_path part of Inl e \<Rightarrow> (False, fs) | Inr fs' \<Rightarrow> (False, fs')))"

text \<open>\<open>os.path.basename\<close>: what follows the last \<open>/\<close>.\<close>

definition basename :: "string \<Rightarrow> string" where
  "basename url = rev (takeWhile (\<lambda>c. c \<noteq> CHR ''/'') (rev url))"

text \<open>\<open>dir / name\<close> for a name without \<open>/\<close>: \<open>pathlib\<close> drops an empty name and \<open>.\<close>.\<close>

definition child :: "path \<Rightarrow> string \<Rightarrow> path" where
  "child dir name = (if name = [] \<or> name = ''.'' then dir else dir @ [name])"

text \<open>
  \<open>PurePath.stem\<close>: the name without its last suffix, where a suffix starts at the last
  \<open>.\<close> that is neither the first nor the last character of the name (CPython 3.11).
\<close>

definition stem :: "string \<Rightarrow> string" where
  "stem name =
     (let after = length (takeWhile (\<lambda>c. c \<noteq> CHR ''.'') (rev name))
      in if CHR ''.'' \<in> set name \<and> 0 < after \<and> after + 1 < length name
         then take (length name - after - 1) name else name)"

text \<open>The loop of lines 325 to 333, with \<open>downloaded_shards\<close> as an accumulator.\<close>

fun download_shards ::
  "remote \<Rightarrow> path \<Rightarrow> string list \<Rightarrow> path list \<Rightarrow> filesystem \<Rightarrow> bool \<times> path list \<times> filesystem" where
  "download_shards remote temp_dir [] downloaded fs = (True, downloaded, fs)"
| "download_shards remote temp_dir (shard_url # rest) downloaded fs =
     (let temp_shard_path = child temp_dir (basename shard_url)
      in case download_dump remote shard_url temp_shard_path fs of (ok, fs') \<Rightarrow>
           if \<not> ok then (False, downloaded, fs')
           else download_shards remote temp_dir rest (downloaded @ [temp_shard_path]) fs')"

text \<open>
  The two compression formats belong to the standard library. \<open>bz2_stream c\<close> is what
  reading the bz2 file with content \<open>c\<close> yields, and whether the stream ended well (when it
  did not, the read after these bytes raises). \<open>gzip_compress\<close> is what the gzip file holds
  once the bytes written to it are flushed and it is closed.
\<close>

record codec =
  bz2_stream :: "bytes \<Rightarrow> bytes \<times> bool"
  gzip_compress :: "bytes \<Rightarrow> bytes"

definition chunk_size :: nat where
  "chunk_size = 1024 * 1024"

text \<open>The loop of lines 344 to 349 over what is left of the decompressed stream.\<close>

function read_chunks :: "bytes \<Rightarrow> bytes \<Rightarrow> nat \<Rightarrow> bytes \<times> nat" where
  "read_chunks src outfile total_size =
     (let chunk = take chunk_size src
      in if chunk = [] then (outfile, total_size)
         else read_chunks (drop chunk_size src) (outfile @ chunk) (total_size + length chunk))"
  by pat_completeness auto
termination
  by (relation "measure (\<lambda>(src, outfile, total_size). length src)") (auto simp: chunk_size_def)

declare read_chunks.simps [simp del]

text \<open>The loop of lines 340 to 349 over the downloaded shards.\<close>

fun concatenate ::
  "codec \<Rightarrow> filesystem \<Rightarrow> path list \<Rightarrow> bytes \<Rightarrow> nat \<Rightarrow> exn option \<times> bytes \<times> nat" where
  "concatenate cd fs [] outfile total_size = (None, outfile, total_size)"
| "concatenate cd fs (shard_path # rest) outfile total_size =
     (case read_file fs shard_path of
        None \<Rightarrow> (Some FileNotFoundError, outfile, total_size)
      | Some c \<Rightarrow>
          (case bz2_stream cd c of (payload, clean) \<Rightarrow>
             (case read_chunks payload outfile total_size of (outfile', total_size') \<Rightarrow>
                if clean then concatenate cd fs rest outfile' total_size'
                else (Some DecompressionError, outfile', total_size'))))"

text \<open>The loop of lines 355 and 356.\<close>

fun unlink_all :: "filesystem \<Rightarrow> path list \<Rightarrow> exn option \<times> filesystem" where
  "unlink_all fs [] = (None, fs)"
| "unlink_all fs (p # rest) =
     (case unlink fs p of Inl e \<Rightarrow> (Some e, fs) | Inr fs' \<Rightarrow> unlink_all fs' rest)"

text \<open>The loop of lines 365 to 367.\<close>

fun unlink_existing :: "filesystem \<Rightarrow> path list \<Rightarrow> exn option \<times> filesystem" where
  "unlink_existing fs [] = (None, fs)"
| "unlink_existing fs (p # rest) =
     (if path_exists fs p
      then (case unlink fs p of Inl e \<Rightarrow> (Some e, fs) | Inr fs' \<Rightarrow> unlink_existing fs' rest)
      else unlink_existing fs rest)"

text \<open>The message of line 351 with the count it formats; no other output is modelled.\<close>

datatype message = SuccessfullyCreated string nat

text \<open>
  Lines 336 to 359, the rest of the \<open>try\<close> block once every shard is downloaded: the
  exception that leaves it if any, the file system and the messages printed.
\<close>

definition concatenate_and_clean ::
  "codec \<Rightarrow> path list \<Rightarrow> path \<Rightarrow> string \<Rightarrow> path \<Rightarrow> filesystem \<Rightarrow>
   exn option \<times> filesystem \<times> message list" where
  "concatenate_and_clean cd downloaded output_dir filename temp_dir fs =
     (let output_path = output_dir @ [filename]
      in case write_file fs output_path (gzip_compress cd []) of
           Inl e \<Rightarrow> (Some e, fs, [])
         | Inr fs1 \<Rightarrow>
             (case concatenate cd fs1 downloaded [] 0 of (err, outfile, total_size) \<Rightarrow>
                (let fs2 = store fs1 output_path (gzip_compress cd outfile)
                 in case err of
                      Some e \<Rightarrow> (Some e, fs2, [])
                    | None \<Rightarrow>
                        (case unlink_all fs2 downloaded of (err', fs3) \<Rightarrow>
                           (case err' of
                              Some e \<Rightarrow> (Some e, fs3, [SuccessfullyCreated filename total_size])
                            | None \<Rightarrow>
                                (case rmdir fs3 temp_dir of
                                   Inl e \<Rightarrow> (Some e, fs3, [SuccessfullyCreated filename total_size])
                                 | Inr fs4 \<Rightarrow> (None, fs4, [SuccessfullyCreated filename total_size])))))))"

text \<open>
  Lines 361 to 372, the handler: the exception that leaves it if one of its own deletions
  raises, and the file system afterwards. A failure of \<open>rmdir\<close> is swallowed.
\<close>

definition cleanup_on_error :: "path \<Rightarrow> path list \<Rightarrow> filesystem \<Rightarrow> exn option \<times> filesystem" where
  "cleanup_on_error temp_dir downloaded fs =
     (if path_exists fs temp_dir then
        (case unlink_existing fs downloaded of (err, fs') \<Rightarrow>
           (case err of
              Some e \<Rightarrow> (Some e, fs')
            | None \<Rightarrow> (case rmdir fs' temp_dir of Inl e \<Rightarrow> (None, fs') | Inr fs'' \<Rightarrow> (None, fs''))))
      else (None, fs))"

text \<open>
  \<open>download_and_concatenate_shards\<close>, lines 315 to 372. The output path is given by its
  directory and its file name. The result is the value returned (or the exception that
  leaves the function), the file system afterwards and the messages printed.
\<close>

definition download_and_concatenate_shards ::
  "codec \<Rightarrow> remote \<Rightarrow> string list \<Rightarrow> path \<Rightarrow> string \<Rightarrow> filesystem \<Rightarrow>
   (exn + bool) \<times> filesystem \<times> message list" where
  "download_and_concatenate_shards cd remote shard_urls output_dir filename fs =
     (let temp_dir = output_dir @ [''.temp_'' @ stem filename]
      in case mkdir_exist_ok fs temp_dir of
           Inl e \<Rightarrow> (Inl e, fs, [])
         | Inr fs0 \<Rightarrow>
             (case download_shards remote temp_dir shard_urls [] fs0 of (ok, downloaded, fs1) \<Rightarrow>
                (case (if ok then concatenate_and_clean cd downloaded output_dir filename temp_dir fs1
                       else (Some DownloadFailed, fs1, [])) of (err, fs2, msgs) \<Rightarrow>
                   (case err of
                      None \<Rightarrow> (Inr True, fs2, msgs)
                    | Some e \<Rightarrow>
                        (case cleanup_on_error temp_dir downloaded fs2 of (err', fs3) \<Rightarrow>
                           (case err' of
                              Some e' \<Rightarrow> (Inl e', fs3, msgs)
                            | None \<Rightarrow> (Inr False, fs3, msgs)))))))"

text \<open>
  A file system and a shard list on which a run can go through: the output directory
  exists, the temporary directory is not a file and has nothing in it, the output path
  is not a directory and is not the temporary directory, the file name and the shard
  names are proper names of one component, and no two shards share a name.
\<close>

definition ready :: "filesystem \<Rightarrow> path \<Rightarrow> string \<Rightarrow> string list \<Rightarrow> bool" where
  "ready fs output_dir filename shard_urls =
     (let temp_dir = output_dir @ [''.temp_'' @ stem filename];
          output_path = output_dir @ [filename]
      in is_dir fs output_dir \<and>
         \<not> is_file fs temp_dir \<and> children fs temp_dir = [] \<and>
         \<not> is_dir fs output_path \<and> output_path \<noteq> temp_dir \<and>
         filename \<noteq> [] \<and> filename \<noteq> ''.'' \<and> filename \<noteq> ''..'' \<and> CHR ''/'' \<notin> set filename \<and>
         distinct (map basename shard_urls) \<and>
         list_all (\<lambda>n. n \<noteq> [] \<and> n \<noteq> ''.'' \<and> n \<noteq> ''..'') (map basename shard_urls))"

section \<open>Example inputs\<close>

text \<open>
  A toy pair of formats for the concrete runs below: a bz2 stream is the byte \<open>B\<close> and
  then its payload (anything else fails at the first read), and gzip puts the byte \<open>G\<close>
  before the payload.
\<close>

definition example_codec :: codec where
  "example_codec =
     \<lparr>bz2_stream = (\<lambda>c. case c of [] \<Rightarrow> ([], True)
                          | x # r \<Rightarrow> if x = CHR ''B'' then (r, True) else ([], False)),
      gzip_compress = (\<lambda>b. CHR ''G'' # b)\<rparr>"

definition example_gunzip :: "bytes \<Rightarrow> bytes option" where
  "example_gunzip z = (case z of [] \<Rightarrow> None | x # r \<Rightarrow> if x = CHR ''G'' then Some r else None)"

definition example_fs :: filesystem where
  "example_fs = \<lparr>fs_files = [], fs_dirs = [[''out'']]\<rparr>"

definition example_remote :: remote where
  "example_remote url =
     (if url = ''http://h/a.json.bz2'' then Retrieved ''Babc''
      else if url = ''http://h/b.json.bz2'' then Retrieved ''Bde''
      else if url = ''http://h/c.json.bz2'' then Broken (Some ''Bx'')
      else Broken None)"

definition example_dumps :: filesystem where
  "example_dumps =
     \<lparr>fs_files = [([''out'', ''enwiki-20250101-cirrussearch-content.json.gz''], ''x''),
                  ([''out'', ''notes.txt''], ''n'')],
      fs_dirs = [[''out'']]\<rparr>"

text \<open>A server: 404 for the unencoded English directory, a listing for the encoded one, 503 for
  French and a listing for German.\<close>

definition example_net :: network where
  "example_net url =
     (if url = ''http://h/d/index_name=enwiki_content/'' then HTTPError 404
      else if url = ''http://h/d/index_name%3Denwiki_content/''
        then Document [(''a'', [(''href'', Some ''../'')]),
                       (''a'', [(''href'', Some ''part-2.json.bz2'')]),
                       (''a'', [(''href'', Some ''part-10.json.bz2'')]),
                       (''a'', [(''href'', Some ''readme.txt'')])]
      else if url = ''http://h/d/index_name=frwiki_content/'' then HTTPError 503
      else if url = ''http://h/d/index_name=dewiki_content/''
        then Document [(''a'', [(''href'', Some ''part-2.json.bz2'')]),
                       (''a'', [(''href'', Some ''part-1.json.bz2'')]),
                       (''a'', [(''href'', Some ''part-10.json.bz2'')])]
      else Unreachable)"

text \<open>The shards of the German listing of the server above.\<close>

definition example_shards :: remote where
  "example_shards url =
     (if url = ''http://h/d/index_name=dewiki_content/part-1.json.bz2'' then Retrieved ''B1''
      else if url = ''http://h/d/index_name=dewiki_content/part-10.json.bz2'' then Retrieved ''B10''
      else if url = ''http://h/d/index_name=dewiki_content/part-2.json.bz2'' then Retrieved ''B2''
      else Broken None)"

section \<open>Theorems\<close>

subsection \<open>Strings and sorting\<close>

lemma endswith_slash: "endswith v ''/'' \<longleftrightarrow> v \<noteq> [] \<and> last v = CHR ''/''"
proof (cases v rule: rev_cases)
  case Nil
  then show ?thesis by (simp add: endswith_def)
next
  case (snoc ys y)
  then show ?thesis by (auto simp: endswith_def)
qed

lemma endswith_iff: "endswith s suf \<longleftrightarrow> (\<exists>pre. s = pre @ suf)"
proof
  assume "endswith s suf"
  then have "s = take (length s - length suf) s @ suf"
    by (metis append_take_drop_id endswith_def)
  then show "\<exists>pre. s = pre @ suf" ..
next
  assume "\<exists>pre. s = pre @ suf"
  then show "endswith s suf" by (auto simp: endswith_def)
qed

lemma rstrip_slash_empty: "rstrip_slash v = [] \<longleftrightarrow> only_slashes v"
  by (auto simp: rstrip_slash_def only_slashes_def dropWhile_eq_Nil_conv list_all_iff)

lemma rstrip_slash_no_trailing: "\<not> endswith (rstrip_slash v) ''/''"
proof -
  let ?d = "dropWhile (\<lambda>c. c = CHR ''/'') (rev v)"
  have "?d \<noteq> [] \<Longrightarrow> hd ?d \<noteq> CHR ''/''"
    using hd_dropWhile [of "\<lambda>c. c = CHR ''/''" "rev v"] by simp
  then show ?thesis
    by (auto simp: endswith_slash rstrip_slash_def last_rev)
qed

lemma sorted_le_last:
  fixes ys :: "('a::linorder) list"
  shows "sorted ys \<Longrightarrow> x \<in> set ys \<Longrightarrow> x \<le> last ys"
  by (induction ys) auto

lemma sorted_last_Max:
  fixes xs :: "('a::linorder) list"
  assumes "xs \<noteq> []"
  shows "last (sort xs) = Max (set xs)"
proof -
  have ne: "sort xs \<noteq> []" using assms by (metis length_sort length_0_conv)
  have le: "\<And>x. x \<in> set xs \<Longrightarrow> x \<le> last (sort xs)"
    using sorted_le_last [of "sort xs"] by simp
  have "last (sort xs) \<in> set (sort xs)" using ne by (rule last_in_set)
  then have mem: "last (sort xs) \<in> set xs" by simp
  show ?thesis
    by (rule sym, rule Max_eqI) (simp_all add: le mem)
qed

subsection \<open>The parser as two filters\<close>

lemma handle_attr_eq:
  "handle_attr p a =
     p\<lparr>files := files p @ filter placed_file (attr_hrefs [a]),
       directories := directories p @ map rstrip_slash (filter placed_dir (attr_hrefs [a]))\<rparr>"
proof -
  obtain n v where a: "a = (n, v)" by (cases a)
  show ?thesis
    by (cases v) (auto simp: a handle_attr_def attr_hrefs_def placed_file_def placed_dir_def
        is_marker_def rstrip_slash_empty Let_def)
qed

lemma attr_hrefs_Cons: "attr_hrefs (a # attrs) = attr_hrefs [a] @ attr_hrefs attrs"
  by (simp add: attr_hrefs_def)

lemma handle_attrs_eq:
  "foldl handle_attr p attrs =
     p\<lparr>files := files p @ filter placed_file (attr_hrefs attrs),
       directories := directories p @ map rstrip_slash (filter placed_dir (attr_hrefs attrs))\<rparr>"
proof (induction attrs arbitrary: p)
  case Nil
  then show ?case by (simp add: attr_hrefs_def)
next
  case (Cons a attrs)
  show ?case
    unfolding foldl_Cons Cons.IH
    by (simp add: handle_attr_eq attr_hrefs_Cons [of a attrs])
qed

lemma feed_eq:
  "feed p doc =
     p\<lparr>files := files p @ filter placed_file (hrefs doc),
       directories := directories p @ map rstrip_slash (filter placed_dir (hrefs doc))\<rparr>"
proof (induction doc arbitrary: p)
  case Nil
  then show ?case by (simp add: feed_def hrefs_def)
next
  case (Cons t doc)
  obtain tag attrs where t: "t = (tag, attrs)" by (cases t)
  have step: "feed p (t # doc) = feed (handle_starttag p t) doc"
    by (simp add: feed_def)
  show ?case
    unfolding step Cons.IH
    by (simp add: t handle_starttag_def handle_attrs_eq hrefs_def attr_hrefs_def)
qed

lemma files_feed: "files (feed new_parser doc) = filter placed_file (hrefs doc)"
  by (simp add: feed_eq new_parser_def)

lemma directories_feed:
  "directories (feed new_parser doc) = map rstrip_slash (filter placed_dir (hrefs doc))"
  by (simp add: feed_eq new_parser_def)

lemma placed_cases:
  "placed_file v \<or> placed_dir v \<longleftrightarrow> v \<noteq> [] \<and> \<not> is_marker v \<and> \<not> only_slashes v"
proof -
  have "v \<noteq> [] \<Longrightarrow> only_slashes v \<Longrightarrow> endswith v ''/''"
    by (auto simp: endswith_slash only_slashes_def list_all_iff)
  then show ?thesis by (auto simp: placed_file_def placed_dir_def)
qed

subsection \<open>The file system\<close>

lemma map_of_filter_fst:
  "map_of (filter (\<lambda>e. fst e \<noteq> p) xs) q = (if q = p then None else map_of xs q)"
  by (induction xs) auto

lemma read_store: "read_file (store fs p c) q = (if q = p then Some c else read_file fs q)"
  by (simp add: read_file_def store_def map_of_filter_fst)

lemma dirs_store: "fs_dirs (store fs p c) = fs_dirs fs"
  by (simp add: store_def)

lemma unlink_Inr:
  assumes "unlink fs p = Inr fs'"
  shows "read_file fs' q = (if q = p then None else read_file fs q)"
    and "fs_dirs fs' = fs_dirs fs"
    and "is_file fs p"
  using assms by (auto simp: unlink_def read_file_def map_of_filter_fst split: if_splits)

lemma is_file_iff: "is_file fs p \<longleftrightarrow> p \<in> fst ` set (fs_files fs)"
  by (simp add: is_file_def read_file_def map_of_eq_None_iff)

lemma set_children:
  "set (children fs d) = {q. path_exists fs q \<and> q \<noteq> [] \<and> butlast q = d}"
  by (auto simp: children_def path_exists_def is_file_iff is_dir_def)

subsection \<open>The pattern\<close>

lemma glob_match_Star: "glob_match (Star # pat) s \<longleftrightarrow> (\<exists>a r. s = a @ r \<and> glob_match pat r)"
proof (induction s)
  case Nil
  show ?case by simp
next
  case (Cons x s)
  show ?case
  proof
    assume "glob_match (Star # pat) (x # s)"
    then consider "glob_match pat (x # s)" | "glob_match (Star # pat) s" by auto
    then show "\<exists>a r. x # s = a @ r \<and> glob_match pat r"
    proof cases
      case 1
      then have "x # s = [] @ (x # s) \<and> glob_match pat (x # s)" by simp
      then show ?thesis by blast
    next
      case 2
      then obtain a r where "s = a @ r" "glob_match pat r" using Cons.IH by blast
      then have "x # s = (x # a) @ r \<and> glob_match pat r" by simp
      then show ?thesis by blast
    qed
  next
    assume "\<exists>a r. x # s = a @ r \<and> glob_match pat r"
    then obtain a r where ar: "x # s = a @ r" "glob_match pat r" by blast
    show "glob_match (Star # pat) (x # s)"
    proof (cases a)
      case Nil
      then have "glob_match pat (x # s)" using ar by simp
      then show ?thesis by simp
    next
      case (Cons y a')
      then have "s = a' @ r" using ar by simp
      then have "glob_match (Star # pat) s" using Cons.IH ar(2) by blast
      then show ?thesis by simp
    qed
  qed
qed

lemma glob_match_Lits:
  "glob_match (map Lit lit @ pat) s \<longleftrightarrow> (\<exists>r. s = lit @ r \<and> glob_match pat r)"
proof (induction lit arbitrary: s)
  case Nil
  show ?case by simp
next
  case (Cons c lit)
  show ?case by (cases s) (auto simp: Cons.IH)
qed

lemma glob_match_Lits_end: "glob_match (map Lit lit) s \<longleftrightarrow> s = lit"
  using glob_match_Lits [of lit "[]" s] by simp

lemma dump_pattern_iff:
  "glob_match dump_pattern name \<longleftrightarrow>
     (\<exists>a b. name = a @ ''wiki-'' @ b @ ''-cirrussearch-content.json.gz'')"
proof -
  have "glob_match dump_pattern name \<longleftrightarrow>
      (\<exists>a r. name = a @ r \<and> (\<exists>r'. r = ''wiki-'' @ r' \<and>
         (\<exists>b r''. r' = b @ r'' \<and> r'' = ''-cirrussearch-content.json.gz'')))"
    unfolding dump_pattern_def glob_match_Star glob_match_Lits glob_match_Lits_end ..
  then show ?thesis by auto
qed

subsection \<open>Cleaning\<close>

lemma unlink_each_frame:
  "unlink_each fs ps = (ok, fs') \<Longrightarrow>
     fs_dirs fs' = fs_dirs fs \<and>
     (\<forall>q. read_file fs' q = read_file fs q \<or> (read_file fs' q = None \<and> q \<in> set ps))"
proof (induction ps arbitrary: fs)
  case Nil
  then show ?case by simp
next
  case (Cons p ps)
  show ?case
  proof (cases "unlink fs p")
    case (Inl e)
    then show ?thesis using Cons.prems by simp
  next
    case (Inr fs1)
    then have "unlink_each fs1 ps = (ok, fs')" using Cons.prems by simp
    from Cons.IH [OF this] unlink_Inr(1,2) [OF Inr] show ?thesis
      by (metis list.set_intros(1) list.set_intros(2))
  qed
qed

lemma cleanup_cases:
  assumes "cleanup_old_dumps output_dir confirm stdin fs = (r, fs', prompted)"
  shows "fs' = fs \<or>
     ((\<not> confirm \<or> confirmed stdin) \<and>
      (\<exists>ok. unlink_each fs (glob fs output_dir dump_pattern) = (ok, fs')))"
  using assms
  by (auto simp: cleanup_old_dumps_def Let_def confirmed_def answer_def split: if_splits option.splits prod.splits)

lemma glob_example: "glob example_dumps [''out''] dump_pattern = [[''out'', ''enwiki-20250101-cirrussearch-content.json.gz'']]"
  by (simp add: glob_def children_def example_dumps_def dump_pattern_def)

lemma unlink_example:
  "unlink example_dumps [''out'', ''enwiki-20250101-cirrussearch-content.json.gz''] =
     Inr \<lparr>fs_files = [([''out'', ''notes.txt''], ''n'')], fs_dirs = [[''out'']]\<rparr>"
  by (simp add: unlink_def is_dir_def is_file_def read_file_def example_dumps_def)

subsection \<open>Reassembly\<close>

lemma read_chunks_eq: "read_chunks src outfile tot = (outfile @ src, tot + length src)"
proof (induction src outfile tot rule: read_chunks.induct)
  case (1 src outfile tot)
  show ?case
  proof (cases "take chunk_size src = []")
    case True
    then have "src = []" by (simp add: chunk_size_def)
    then show ?thesis by (simp add: read_chunks.simps)
  next
    case False
    have "read_chunks src outfile tot =
        read_chunks (drop chunk_size src) (outfile @ take chunk_size src)
          (tot + length (take chunk_size src))"
      using False by (subst read_chunks.simps) (simp add: Let_def)
    also have "\<dots> = ((outfile @ take chunk_size src) @ drop chunk_size src,
        tot + length (take chunk_size src) + length (drop chunk_size src))"
      using "1.IH" [OF refl False] .
    finally show ?thesis by simp
  qed
qed

lemma write_file_Inr:
  assumes "write_file fs p c = Inr fs'"
  shows "fs' = store fs p c" and "\<not> is_dir fs p" and "is_dir fs (butlast p)" and "p \<noteq> []"
  using assms by (auto simp: write_file_def split: if_splits)

lemma download_dump_True:
  assumes "download_dump remote url p fs = (True, fs')"
  shows "\<exists>c. remote url = Retrieved c \<and> fs' = store fs p c" and "\<not> is_dir fs p"
  using assms
  by (auto simp: download_dump_def dest: write_file_Inr
      split: download.splits option.splits sum.splits)

lemma download_dump_frame:
  assumes "download_dump remote url p fs = (ok, fs')"
  shows "fs_dirs fs' = fs_dirs fs" and "q \<noteq> p \<Longrightarrow> read_file fs' q = read_file fs q"
  using assms
  by (auto simp: download_dump_def read_store dirs_store dest!: write_file_Inr(1)
      split: download.splits option.splits sum.splits)

lemma download_shards_True:
  "download_shards remote td urls acc fs = (True, dl, fs') \<Longrightarrow>
     dl = acc @ map (\<lambda>u. child td (basename u)) urls \<and>
     fs_dirs fs' = fs_dirs fs \<and>
     (\<forall>u \<in> set urls. \<not> is_dir fs (child td (basename u))) \<and>
     (\<forall>q. q \<notin> (\<lambda>u. child td (basename u)) ` set urls \<longrightarrow> read_file fs' q = read_file fs q) \<and>
     (distinct (map (\<lambda>u. child td (basename u)) urls) \<longrightarrow>
        (\<forall>u \<in> set urls. \<exists>c. remote u = Retrieved c \<and>
           read_file fs' (child td (basename u)) = Some c))"
proof (induction urls arbitrary: acc fs)
  case Nil
  then show ?case by simp
next
  case (Cons u urls)
  let ?tp = "\<lambda>u. child td (basename u)"
  obtain ok fs1 where dd: "download_dump remote u (?tp u) fs = (ok, fs1)"
    by (cases "download_dump remote u (?tp u) fs")
  have ok: "ok" using Cons.prems dd by (auto simp: Let_def split: if_splits)
  then have rest: "download_shards remote td urls (acc @ [?tp u]) fs1 = (True, dl, fs')"
    using Cons.prems dd by (simp add: Let_def)
  note IH = Cons.IH [OF rest]
  have dd': "download_dump remote u (?tp u) fs = (True, fs1)" using dd ok by simp
  from download_dump_True(1) [OF dd'] obtain c
    where c: "remote u = Retrieved c" "fs1 = store fs (?tp u) c" by blast
  have nd: "\<not> is_dir fs (?tp u)" using download_dump_True(2) [OF dd'] .
  have dirs1: "fs_dirs fs1 = fs_dirs fs" using download_dump_frame(1) [OF dd] .
  have isd: "is_dir fs1 q = is_dir fs q" for q by (simp add: is_dir_def dirs1)
  have frame1: "q \<noteq> ?tp u \<Longrightarrow> read_file fs1 q = read_file fs q" for q
    using download_dump_frame(2) [OF dd] .
  have "dl = acc @ map ?tp (u # urls)" using IH by simp
  moreover have "fs_dirs fs' = fs_dirs fs" using IH dirs1 by simp
  moreover have "\<forall>v \<in> set (u # urls). \<not> is_dir fs (?tp v)" using IH nd isd by simp
  moreover have "\<forall>q. q \<notin> ?tp ` set (u # urls) \<longrightarrow> read_file fs' q = read_file fs q"
    using IH frame1 by simp
  moreover have "distinct (map ?tp (u # urls)) \<longrightarrow>
      (\<forall>v \<in> set (u # urls). \<exists>c. remote v = Retrieved c \<and> read_file fs' (?tp v) = Some c)"
  proof
    assume d: "distinct (map ?tp (u # urls))"
    then have notin: "?tp u \<notin> ?tp ` set urls" and d': "distinct (map ?tp urls)" by auto
    have "read_file fs' (?tp u) = read_file fs1 (?tp u)" using IH notin by blast
    then have "read_file fs' (?tp u) = Some c" by (simp add: c(2) read_store)
    then show "\<forall>v \<in> set (u # urls). \<exists>c. remote v = Retrieved c \<and> read_file fs' (?tp v) = Some c"
      using IH d' c(1) by auto
  qed
  ultimately show ?case by blast
qed

lemma unlink_all_None:
  "unlink_all fs ps = (None, fs') \<Longrightarrow>
     distinct ps \<and> fs_dirs fs' = fs_dirs fs \<and> (\<forall>p \<in> set ps. is_file fs p) \<and>
     (\<forall>q. read_file fs' q = (if q \<in> set ps then None else read_file fs q))"
proof (induction ps arbitrary: fs)
  case Nil
  then show ?case by simp
next
  case (Cons p ps)
  from Cons.prems obtain fs1 where u: "unlink fs p = Inr fs1"
    and rest: "unlink_all fs1 ps = (None, fs')"
    by (auto split: sum.splits)
  note IH = Cons.IH [OF rest]
  have r1: "read_file fs1 q = (if q = p then None else read_file fs q)" for q
    using unlink_Inr(1) [OF u] .
  have "\<not> is_file fs1 p" by (simp add: is_file_def r1)
  then have notin: "p \<notin> set ps" using IH by blast
  have files: "\<forall>q \<in> set (p # ps). is_file fs q"
    using IH unlink_Inr(3) [OF u] r1 by (auto simp: is_file_def split: if_splits)
  have "\<forall>q. read_file fs' q = (if q \<in> set (p # ps) then None else read_file fs q)"
    using IH r1 by auto
  then show ?case using IH notin files unlink_Inr(2) [OF u] by simp
qed

lemma concatenate_clean:
  "list_all2 (\<lambda>p b. \<exists>c. read_file fs p = Some c \<and> bz2_stream cd c = (b, True)) ps bs \<Longrightarrow>
     concatenate cd fs ps outfile tot = (None, outfile @ concat bs, tot + length (concat bs))"
proof (induction ps arbitrary: bs outfile tot)
  case Nil
  then show ?case by simp
next
  case (Cons p ps)
  from Cons.prems obtain b bs' c where bs: "bs = b # bs'"
    and c: "read_file fs p = Some c" "bz2_stream cd c = (b, True)"
    and rest: "list_all2 (\<lambda>p b. \<exists>c. read_file fs p = Some c \<and> bz2_stream cd c = (b, True)) ps bs'"
    by (auto simp: list_all2_Cons1)
  show ?case
    using Cons.IH [OF rest] by (simp add: bs c read_chunks_eq)
qed

lemma mkdir_exist_ok_Inr:
  "mkdir_exist_ok fs p = Inr fs' \<Longrightarrow> is_dir fs' p"
  by (auto simp: mkdir_exist_ok_def is_dir_def split: if_splits)

lemma rmdir_Inr: "rmdir fs p = Inr fs' \<Longrightarrow> fs_files fs' = fs_files fs"
  by (auto simp: rmdir_def split: if_splits)

lemma child_cases: "child td n = td \<or> child td n = td @ [n]"
  by (simp add: child_def)

lemma reassemble_success:
  assumes run: "download_and_concatenate_shards cd remote urls od fn fs = (Inr True, fs', msgs)"
    and cont: "list_all2 (\<lambda>u b. \<exists>c. remote u = Retrieved c \<and> bz2_stream cd c = (b, True)) urls bs"
  shows "read_file fs' (od @ [fn]) = Some (gzip_compress cd (concat bs)) \<and>
         msgs = [SuccessfullyCreated fn (length (concat bs))]"
proof -
  let ?td = "od @ [''.temp_'' @ stem fn]"
  let ?out = "od @ [fn]"
  let ?tp = "\<lambda>u. child ?td (basename u)"
  from run obtain fs0 dl fs1 where mk: "mkdir_exist_ok fs ?td = Inr fs0"
    and dsh: "download_shards remote ?td urls [] fs0 = (True, dl, fs1)"
    and cc: "concatenate_and_clean cd dl od fn ?td fs1 = (None, fs', msgs)"
    by (auto simp: download_and_concatenate_shards_def Let_def
        split: sum.splits prod.splits option.splits if_splits)
  from cc obtain fsa buf tot fs3 where w: "write_file fs1 ?out (gzip_compress cd []) = Inr fsa"
    and con: "concatenate cd fsa dl [] 0 = (None, buf, tot)"
    and ul: "unlink_all (store fsa ?out (gzip_compress cd buf)) dl = (None, fs3)"
    and rm: "rmdir fs3 ?td = Inr fs'"
    and msgs: "msgs = [SuccessfullyCreated fn tot]"
    by (auto simp: concatenate_and_clean_def Let_def
        split: sum.splits prod.splits option.splits)
  note D = download_shards_True [OF dsh]
  have dl: "dl = map ?tp urls" using D by simp
  have td: "is_dir fs0 ?td" using mkdir_exist_ok_Inr [OF mk] .
  have tp_ne: "?tp u \<noteq> ?out" if "u \<in> set urls" for u
  proof -
    have "\<not> is_dir fs0 (?tp u)" using D that by blast
    then have "?tp u \<noteq> ?td" using td by auto
    then have "?tp u = ?td @ [basename u]" using child_cases [of ?td "basename u"] by auto
    then show ?thesis by auto
  qed
  have dist: "distinct (map ?tp urls)" using unlink_all_None [OF ul] dl by simp
  have fsa: "fsa = store fs1 ?out (gzip_compress cd [])" using write_file_Inr(1) [OF w] .
  have stored: "\<exists>c. remote u = Retrieved c \<and> read_file fsa (?tp u) = Some c"
    if "u \<in> set urls" for u
    using D dist that tp_ne [OF that] by (simp add: fsa read_store)
  have "list_all2 (\<lambda>u b. \<exists>c. read_file fsa (?tp u) = Some c \<and> bz2_stream cd c = (b, True)) urls bs"
    using cont
  proof (rule list.rel_mono_strong)
    fix u b
    assume u: "u \<in> set urls" and "\<exists>c. remote u = Retrieved c \<and> bz2_stream cd c = (b, True)"
    then show "\<exists>c. read_file fsa (?tp u) = Some c \<and> bz2_stream cd c = (b, True)"
      using stored [OF u] by auto
  qed
  then have "list_all2 (\<lambda>p b. \<exists>c. read_file fsa p = Some c \<and> bz2_stream cd c = (b, True)) dl bs"
    by (simp add: dl list_all2_map1)
  from concatenate_clean [OF this, of "[]" 0] con
  have buf: "buf = concat bs" and tot: "tot = length (concat bs)" by simp_all
  have "?out \<notin> set dl"
  proof
    assume "?out \<in> set dl"
    then obtain u where "u \<in> set urls" "?tp u = ?out" unfolding dl by auto
    then show False using tp_ne by blast
  qed
  then have "read_file fs3 ?out = Some (gzip_compress cd buf)"
    using unlink_all_None [OF ul] by (simp add: read_store)
  moreover have "read_file fs' ?out = read_file fs3 ?out"
    using rmdir_Inr [OF rm] by (simp add: read_file_def)
  ultimately show ?thesis using buf tot msgs by simp
qed

lemma example_run:
  "download_and_concatenate_shards example_codec example_remote
     [''http://h/a.json.bz2'', ''http://h/b.json.bz2''] [''out''] ''f.json.gz'' example_fs =
   (Inr True, \<lparr>fs_files = [([''out'', ''f.json.gz''], ''Gabcde'')], fs_dirs = [[''out'']]\<rparr>,
    [SuccessfullyCreated ''f.json.gz'' 5])"
  by (simp add: download_and_concatenate_shards_def concatenate_and_clean_def stem_def
      mkdir_exist_ok_def is_dir_def is_file_def read_file_def example_fs_def example_remote_def
      example_codec_def download_dump_def write_file_def store_def child_def basename_def
      read_chunks_eq unlink_def rmdir_def children_def Let_def)

lemma example_empty_run:
  "download_and_concatenate_shards example_codec example_remote [] [''out''] ''f.json.gz'' example_fs =
   (Inr True, \<lparr>fs_files = [([''out'', ''f.json.gz''], ''G'')], fs_dirs = [[''out'']]\<rparr>,
    [SuccessfullyCreated ''f.json.gz'' 0])"
  by (simp add: download_and_concatenate_shards_def concatenate_and_clean_def stem_def
      mkdir_exist_ok_def is_dir_def is_file_def read_file_def example_fs_def example_remote_def
      example_codec_def download_dump_def write_file_def store_def child_def basename_def
      read_chunks_eq unlink_def rmdir_def children_def Let_def)

lemma example_broken_run:
  "download_and_concatenate_shards example_codec example_remote
     [''http://h/a.json.bz2'', ''http://h/c.json.bz2''] [''out''] ''f.json.gz'' example_fs =
   (Inr False,
    \<lparr>fs_files = [([''out'', ''.temp_f.json'', ''c.json.bz2''], ''Bx'')],
      fs_dirs = [[''out'', ''.temp_f.json''], [''out'']]\<rparr>, [])"
  by (simp add: download_and_concatenate_shards_def concatenate_and_clean_def stem_def
      cleanup_on_error_def path_exists_def
      mkdir_exist_ok_def is_dir_def is_file_def read_file_def example_fs_def example_remote_def
      example_codec_def download_dump_def write_file_def store_def child_def basename_def
      read_chunks_eq unlink_def rmdir_def children_def Let_def)

lemma download_dump_cases:
  assumes "download_dump remote url p fs = (ok, fs')"
  shows "fs' = fs \<or> (\<exists>c. fs' = store fs p c \<and> \<not> is_dir fs p)"
  using assms
  by (auto simp: download_dump_def dest: write_file_Inr
      split: download.splits option.splits sum.splits)

lemma download_shards_any:
  "download_shards remote td urls acc fs = (ok, dl, fs') \<Longrightarrow>
     fs_dirs fs' = fs_dirs fs \<and>
     (\<forall>p \<in> set dl. p \<in> set acc \<or>
          (\<exists>u \<in> set urls. p = child td (basename u) \<and> \<not> is_dir fs p)) \<and>
     (\<forall>q. read_file fs' q = read_file fs q \<or>
          (\<exists>u \<in> set urls. q = child td (basename u) \<and> \<not> is_dir fs q))"
proof (induction urls arbitrary: acc fs)
  case Nil
  then show ?case by auto
next
  case (Cons u urls)
  let ?p = "child td (basename u)"
  obtain ok1 fs1 where dd: "download_dump remote u ?p fs = (ok1, fs1)"
    by (cases "download_dump remote u ?p fs")
  have dirs1: "fs_dirs fs1 = fs_dirs fs" using download_dump_frame(1) [OF dd] .
  have isd: "is_dir fs1 q = is_dir fs q" for q by (simp add: is_dir_def dirs1)
  have r1: "read_file fs1 q = read_file fs q \<or> (q = ?p \<and> \<not> is_dir fs q)" for q
    using download_dump_cases [OF dd] by (auto simp: read_store split: if_splits)
  show ?case
  proof (cases ok1)
    case False
    then have "dl = acc" "fs' = fs1" using Cons.prems dd by (simp_all add: Let_def)
    then show ?thesis using dirs1 r1 by auto
  next
    case True
    then have rest: "download_shards remote td urls (acc @ [?p]) fs1 = (ok, dl, fs')"
      using Cons.prems dd by (simp add: Let_def)
    have nd: "\<not> is_dir fs ?p"
      using download_dump_True(2) [of remote u ?p fs fs1] dd True by simp
    note IH = Cons.IH [OF rest]
    have a: "fs_dirs fs' = fs_dirs fs" using IH dirs1 by simp
    have b: "\<forall>p \<in> set dl. p \<in> set acc \<or>
          (\<exists>v \<in> set (u # urls). p = child td (basename v) \<and> \<not> is_dir fs p)"
      using IH nd isd by auto
    have c: "\<forall>q. read_file fs' q = read_file fs q \<or>
          (\<exists>v \<in> set (u # urls). q = child td (basename v) \<and> \<not> is_dir fs q)"
    proof
      fix q
      from IH have "read_file fs' q = read_file fs1 q \<or>
          (\<exists>v \<in> set urls. q = child td (basename v) \<and> \<not> is_dir fs1 q)" by blast
      then show "read_file fs' q = read_file fs q \<or>
          (\<exists>v \<in> set (u # urls). q = child td (basename v) \<and> \<not> is_dir fs q)"
        using r1 [of q] isd by auto
    qed
    show ?thesis using a b c by blast
  qed
qed

lemma unlink_all_any:
  "unlink_all fs ps = (err, fs') \<Longrightarrow>
     fs_dirs fs' = fs_dirs fs \<and>
     (\<forall>q. read_file fs' q = read_file fs q \<or> (q \<in> set ps \<and> read_file fs' q = None))"
proof (induction ps arbitrary: fs)
  case Nil
  then show ?case by simp
next
  case (Cons p ps)
  show ?case
  proof (cases "unlink fs p")
    case (Inl e)
    then show ?thesis using Cons.prems by simp
  next
    case (Inr fs1)
    then have "unlink_all fs1 ps = (err, fs')" using Cons.prems by simp
    from Cons.IH [OF this] unlink_Inr(1,2) [OF Inr] show ?thesis
      by (metis list.set_intros(1) list.set_intros(2))
  qed
qed

lemma unlink_existing_any:
  "unlink_existing fs ps = (err, fs') \<Longrightarrow>
     fs_dirs fs' = fs_dirs fs \<and>
     (\<forall>q. read_file fs' q = read_file fs q \<or> (q \<in> set ps \<and> read_file fs' q = None)) \<and>
     (err = None \<longrightarrow> (\<forall>p \<in> set ps. \<not> is_file fs' p))"
proof (induction ps arbitrary: fs)
  case Nil
  then show ?case by simp
next
  case (Cons p ps)
  show ?case
  proof (cases "path_exists fs p")
    case False
    then have rest: "unlink_existing fs ps = (err, fs')" using Cons.prems by simp
    note IH = Cons.IH [OF rest]
    have "read_file fs p = None" using False by (simp add: path_exists_def is_file_def)
    then have "\<not> is_file fs' p" using IH by (metis is_file_def)
    then show ?thesis using IH by auto
  next
    case True
    show ?thesis
    proof (cases "unlink fs p")
      case (Inl e)
      then show ?thesis using Cons.prems True by auto
    next
      case (Inr fs1)
      then have rest: "unlink_existing fs1 ps = (err, fs')" using Cons.prems True by simp
      note IH = Cons.IH [OF rest]
      have r1: "read_file fs1 q = (if q = p then None else read_file fs q)" for q
        using unlink_Inr(1) [OF Inr] .
      have "\<not> is_file fs' p" using IH r1 [of p] by (metis is_file_def)
      moreover have "\<forall>q. read_file fs' q = read_file fs q \<or> (q \<in> set (p # ps) \<and> read_file fs' q = None)"
        using IH r1 by (metis list.set_intros(1) list.set_intros(2))
      ultimately show ?thesis using IH unlink_Inr(2) [OF Inr] by auto
    qed
  qed
qed

lemma concatenate_and_clean_Some:
  assumes "concatenate_and_clean cd dl od fn td fs1 = (Some e, fs2, msgs)"
  shows "fs_dirs fs2 = fs_dirs fs1 \<and>
    (\<forall>q. read_file fs2 q = read_file fs1 q \<or> (q \<in> set dl \<and> read_file fs2 q = None) \<or>
         (q = od @ [fn] \<and> read_file fs2 q \<noteq> None))"
proof (cases "write_file fs1 (od @ [fn]) (gzip_compress cd [])")
  case (Inl e')
  then show ?thesis using assms by (simp add: concatenate_and_clean_def)
next
  case (Inr fsa)
  obtain err buf tot where con: "concatenate cd fsa dl [] 0 = (err, buf, tot)"
    by (cases "concatenate cd fsa dl [] 0")
  let ?fsb = "store fs1 (od @ [fn]) (gzip_compress cd buf)"
  have fsa: "fsa = store fs1 (od @ [fn]) (gzip_compress cd [])" using write_file_Inr(1) [OF Inr] .
  have fsb: "store fsa (od @ [fn]) (gzip_compress cd buf) = ?fsb"
    by (simp add: fsa store_def)
  have rb: "read_file ?fsb q = (if q = od @ [fn] then Some (gzip_compress cd buf) else read_file fs1 q)" for q
    by (simp add: read_store)
  have db: "fs_dirs ?fsb = fs_dirs fs1" by (simp add: dirs_store)
  show ?thesis
  proof (cases err)
    case (Some e')
    then have "fs2 = ?fsb" using assms Inr con fsb by (simp add: concatenate_and_clean_def)
    then show ?thesis using rb db by auto
  next
    case None
    obtain err' fs3 where ul: "unlink_all ?fsb dl = (err', fs3)" by (cases "unlink_all ?fsb dl")
    note U = unlink_all_any [OF ul]
    have fs3: "fs_dirs fs3 = fs_dirs fs1 \<and>
      (\<forall>q. read_file fs3 q = read_file fs1 q \<or> (q \<in> set dl \<and> read_file fs3 q = None) \<or>
         (q = od @ [fn] \<and> read_file fs3 q \<noteq> None))"
      using U rb db by (metis option.distinct(1))
    have "fs2 = fs3"
      using assms Inr con fsb None ul
      by (auto simp: concatenate_and_clean_def split: option.splits sum.splits)
    then show ?thesis using fs3 by simp
  qed
qed

lemma cleanup_on_error_None:
  assumes "cleanup_on_error td dl fs2 = (None, fs')" and "is_dir fs2 td"
  shows "(\<forall>p \<in> set dl. \<not> is_file fs' p) \<and>
    (\<forall>q. read_file fs' q = read_file fs2 q \<or> (q \<in> set dl \<and> read_file fs' q = None))"
proof -
  obtain err fsx where ue: "unlink_existing fs2 dl = (err, fsx)"
    by (cases "unlink_existing fs2 dl")
  have ex: "path_exists fs2 td" using assms(2) by (simp add: path_exists_def)
  have err: "err = None"
    using assms(1) ue ex by (auto simp: cleanup_on_error_def split: option.splits)
  have "fs_files fs' = fs_files fsx"
    using assms(1) ue ex err
    by (auto simp: cleanup_on_error_def dest: rmdir_Inr split: sum.splits)
  then have same: "read_file fs' q = read_file fsx q" for q by (simp add: read_file_def)
  show ?thesis
    using unlink_existing_any [OF ue] err by (simp add: same is_file_def)
qed

text \<open>
  What the handler does achieve on every run that returns \<open>False\<close>: no shard whose
  download completed keeps its temporary file, and an output file that existed is still
  there.
\<close>

proposition failure_removes_completed_shards:
  assumes "download_and_concatenate_shards cd remote shard_urls output_dir filename fs =
             (Inr False, fs', msgs)"
  shows "\<exists>fs0 ok downloaded fs1.
     mkdir_exist_ok fs (output_dir @ [''.temp_'' @ stem filename]) = Inr fs0 \<and>
     download_shards remote (output_dir @ [''.temp_'' @ stem filename]) shard_urls [] fs0 =
       (ok, downloaded, fs1) \<and>
     (\<forall>p \<in> set downloaded. \<not> is_file fs' p) \<and>
     (is_file fs (output_dir @ [filename]) \<longrightarrow> is_file fs' (output_dir @ [filename]))"
proof -
  let ?td = "output_dir @ [''.temp_'' @ stem filename]"
  let ?out = "output_dir @ [filename]"
  from assms obtain fs0 where mk: "mkdir_exist_ok fs ?td = Inr fs0"
    by (auto simp: download_and_concatenate_shards_def Let_def split: sum.splits)
  obtain ok dl fs1 where dsh: "download_shards remote ?td shard_urls [] fs0 = (ok, dl, fs1)"
    by (cases "download_shards remote ?td shard_urls [] fs0") auto
  obtain err fs2 msgs2 where body0: "(if ok
        then concatenate_and_clean cd dl output_dir filename ?td fs1
        else (Some DownloadFailed, fs1, [])) = (err, fs2, msgs2)"
    by (cases "if ok then concatenate_and_clean cd dl output_dir filename ?td fs1
        else (Some DownloadFailed, fs1, [])") auto
  obtain err' fs3 where cl0: "cleanup_on_error ?td dl fs2 = (err', fs3)"
    by (cases "cleanup_on_error ?td dl fs2")
  have unfolded: "download_and_concatenate_shards cd remote shard_urls output_dir filename fs =
      (case err of None \<Rightarrow> (Inr True, fs2, msgs2)
       | Some e \<Rightarrow> (case err' of Some e' \<Rightarrow> (Inl e', fs3, msgs2) | None \<Rightarrow> (Inr False, fs3, msgs2)))"
    unfolding download_and_concatenate_shards_def Let_def mk sum.case dsh prod.case body0 cl0
    by (simp split: option.splits)
  from unfolded assms obtain e where err: "err = Some e" and "err' = None" and "fs3 = fs'"
    and "msgs2 = msgs"
    by (auto split: option.splits)
  then have body: "(if ok then concatenate_and_clean cd dl output_dir filename ?td fs1
        else (Some DownloadFailed, fs1, [])) = (Some e, fs2, msgs)"
    and cl: "cleanup_on_error ?td dl fs2 = (None, fs')"
    using body0 cl0 by simp_all
  have files0: "read_file fs0 q = read_file fs q" for q
    using mk by (auto simp: mkdir_exist_ok_def read_file_def split: if_splits)
  have td0: "is_dir fs0 ?td" using mkdir_exist_ok_Inr [OF mk] .
  note D = download_shards_any [OF dsh]
  have not_out: "\<not> (\<exists>u. ?out = child ?td (basename u) \<and> \<not> is_dir fs0 ?out)"
  proof
    assume "\<exists>u. ?out = child ?td (basename u) \<and> \<not> is_dir fs0 ?out"
    then obtain u where u: "?out = child ?td (basename u)" "\<not> is_dir fs0 ?out" by blast
    then have "?out \<noteq> ?td" using td0 by auto
    then have "?out = ?td @ [basename u]" using child_cases [of ?td "basename u"] u(1) by auto
    then show False by simp
  qed
  have out_dl: "?out \<notin> set dl" using D not_out by auto
  have r1: "read_file fs1 ?out = read_file fs0 ?out" using D not_out by blast
  have body': "fs_dirs fs2 = fs_dirs fs1 \<and>
      (read_file fs2 ?out = read_file fs1 ?out \<or> read_file fs2 ?out \<noteq> None)"
  proof (cases ok)
    case True
    then have "concatenate_and_clean cd dl output_dir filename ?td fs1 = (Some e, fs2, msgs)"
      using body by simp
    from concatenate_and_clean_Some [OF this] out_dl show ?thesis by blast
  next
    case False
    then show ?thesis using body by simp
  qed
  have td2: "is_dir fs2 ?td" using td0 D body' by (simp add: is_dir_def)
  note C = cleanup_on_error_None [OF cl td2]
  have r3: "read_file fs' ?out = read_file fs2 ?out" using C out_dl by blast
  have keep: "is_file fs ?out \<longrightarrow> is_file fs' ?out"
    using files0 [of ?out] r1 body' r3 by (auto simp: is_file_def)
  show ?thesis using mk dsh C keep by blast
qed

subsection \<open>The locator\<close>

lemma discover_Inr:
  assumes "discover_shard_files net base_url lang date = (Inr urls, log)"
  shows "\<exists>doc prefix.
     ((net (base_url @ subdir_name lang @ ''/'') = Document doc \<and>
       prefix = base_url @ subdir_name lang @ ''/'' \<and>
       log = [base_url @ subdir_name lang @ ''/'']) \<or>
      (net (base_url @ subdir_name lang @ ''/'') = HTTPError 404 \<and>
       net (base_url @ quote (subdir_name lang) @ ''/'') = Document doc \<and>
       prefix = base_url @ quote (subdir_name lang) @ ''/'' \<and>
       log = [base_url @ subdir_name lang @ ''/'', base_url @ quote (subdir_name lang) @ ''/''])) \<and>
     shard_files_of doc \<noteq> [] \<and> urls = map (\<lambda>f. prefix @ f) (shard_files_of doc)"
proof (cases "net (base_url @ subdir_name lang @ ''/'')")
  case (HTTPError code)
  show ?thesis
  proof (cases "net (base_url @ quote (subdir_name lang) @ ''/'')")
    case (Document doc)
    then show ?thesis
      using assms HTTPError
      by (auto simp: discover_shard_files_def urlopen_def Let_def split: if_splits)
  qed (use assms HTTPError in \<open>auto simp: discover_shard_files_def urlopen_def Let_def split: if_splits\<close>)
next
  case Unreachable
  then show ?thesis
    using assms by (auto simp: discover_shard_files_def urlopen_def Let_def)
next
  case (Document doc)
  then show ?thesis
    using assms by (auto simp: discover_shard_files_def urlopen_def Let_def split: if_splits)
qed

lemma quote_append: "quote (a @ b) = quote a @ quote b"
  by (simp add: quote_def)

lemma quote_equals: "quote ''='' = ''%3D''"
  by (simp add: quote_def quote_char_def is_unreserved_def is_digit_def utf8_def percent_def
      hex_digit_def)

lemma quote_slash: "quote ''/'' = ''/''"
  by (simp add: quote_def quote_char_def)

lemma quote_subdir_ne: "quote (subdir_name lang) \<noteq> subdir_name lang"
proof -
  have s: "subdir_name lang = ''index_name='' @ lang @ ''wiki_content''"
    by (simp add: subdir_name_def)
  have "quote ''index_name='' = ''index_name%3D''"
    by (simp add: quote_def quote_char_def is_unreserved_def is_digit_def utf8_def percent_def
        hex_digit_def)
  then have "quote (subdir_name lang) = ''index_name%3D'' @ quote (lang @ ''wiki_content'')"
    unfolding s by (simp only: quote_append)
  then show ?thesis unfolding s by simp
qed

lemma example_discover:
  "discover_shard_files example_net ''http://h/d/'' ''en'' ''20250101'' =
     (Inr [''http://h/d/index_name%3Denwiki_content/part-10.json.bz2'',
           ''http://h/d/index_name%3Denwiki_content/part-2.json.bz2''],
      [''http://h/d/index_name=enwiki_content/'', ''http://h/d/index_name%3Denwiki_content/''])"
  by (simp add: discover_shard_files_def urlopen_def subdir_name_def example_net_def
      quote_def quote_char_def is_unreserved_def is_digit_def utf8_def percent_def hex_digit_def
      shard_files_of_def feed_def new_parser_def handle_starttag_def handle_attr_def
      endswith_def rstrip_slash_def Let_def)

lemma example_discover_de:
  "discover_shard_files example_net ''http://h/d/'' ''de'' ''20250101'' =
     (Inr [''http://h/d/index_name=dewiki_content/part-1.json.bz2'',
           ''http://h/d/index_name=dewiki_content/part-10.json.bz2'',
           ''http://h/d/index_name=dewiki_content/part-2.json.bz2''],
      [''http://h/d/index_name=dewiki_content/''])"
  by (simp add: discover_shard_files_def urlopen_def subdir_name_def example_net_def
      shard_files_of_def feed_def new_parser_def handle_starttag_def handle_attr_def
      endswith_def rstrip_slash_def Let_def)

lemma example_discover_fr:
  "discover_shard_files example_net ''http://h/d/'' ''fr'' ''20250101'' =
     (Inl (FailedToAccess 503), [''http://h/d/index_name=frwiki_content/''])"
  by (simp add: discover_shard_files_def urlopen_def subdir_name_def example_net_def Let_def)

lemma discover_nonempty:
  "discover_shard_files net base_url lang date = (Inr urls, log) \<Longrightarrow> urls \<noteq> []"
  using discover_Inr [of net base_url lang date urls log] by auto

lemma example_contents:
  "list_all2 (\<lambda>u b. \<exists>c. example_remote u = Retrieved c \<and> bz2_stream example_codec c = (b, True))
     [''http://h/a.json.bz2'', ''http://h/b.json.bz2''] [''abc'', ''de'']"
  by (simp add: example_remote_def example_codec_def)

lemma example_roundtrip: "\<forall>x. example_gunzip (gzip_compress example_codec x) = Some x"
  by (simp add: example_gunzip_def example_codec_def)

subsection \<open>A run that goes through\<close>

lemma write_file_ok:
  "\<not> is_dir fs p \<Longrightarrow> p \<noteq> [] \<Longrightarrow> last p \<noteq> ''..'' \<Longrightarrow> is_dir fs (butlast p) \<Longrightarrow>
     write_file fs p c = Inr (store fs p c)"
  by (simp add: write_file_def)

lemma list_all2_lhs: "list_all2 P xs ys \<Longrightarrow> \<forall>x \<in> set xs. \<exists>y. P x y"
  by (induction rule: list_all2_induct) auto

lemma download_shards_ok:
  "\<forall>u \<in> set urls. (\<exists>c. remote u = Retrieved c) \<and> \<not> is_dir fs (child td (basename u)) \<and>
       child td (basename u) \<noteq> [] \<and> last (child td (basename u)) \<noteq> ''..'' \<and>
       is_dir fs (butlast (child td (basename u))) \<Longrightarrow>
   \<exists>fs'. download_shards remote td urls acc fs =
     (True, acc @ map (\<lambda>u. child td (basename u)) urls, fs')"
proof (induction urls arbitrary: acc fs)
  case Nil
  then show ?case by simp
next
  case (Cons u urls)
  let ?p = "child td (basename u)"
  from Cons.prems obtain c where c: "remote u = Retrieved c" by auto
  have w: "write_file fs ?p c = Inr (store fs ?p c)"
    using Cons.prems by (intro write_file_ok) auto
  have dd: "download_dump remote u ?p fs = (True, store fs ?p c)"
    by (simp add: download_dump_def c w)
  have isd: "is_dir (store fs ?p c) q = is_dir fs q" for q
    by (simp add: is_dir_def dirs_store)
  have "\<forall>v \<in> set urls. (\<exists>c. remote v = Retrieved c) \<and>
       \<not> is_dir (store fs ?p c) (child td (basename v)) \<and>
       child td (basename v) \<noteq> [] \<and> last (child td (basename v)) \<noteq> ''..'' \<and>
       is_dir (store fs ?p c) (butlast (child td (basename v)))"
    using Cons.prems by (simp add: isd)
  from Cons.IH [OF this, of "acc @ [?p]"] obtain fs' where
    "download_shards remote td urls (acc @ [?p]) (store fs ?p c) =
       (True, (acc @ [?p]) @ map (\<lambda>u. child td (basename u)) urls, fs')" by blast
  then show ?case by (simp add: dd Let_def)
qed

lemma unlink_all_ok:
  "distinct ps \<Longrightarrow> \<forall>p \<in> set ps. is_file fs p \<and> \<not> is_dir fs p \<Longrightarrow>
     \<exists>fs'. unlink_all fs ps = (None, fs')"
proof (induction ps arbitrary: fs)
  case Nil
  then show ?case by simp
next
  case (Cons p ps)
  let ?fs1 = "fs\<lparr>fs_files := filter (\<lambda>e. fst e \<noteq> p) (fs_files fs)\<rparr>"
  have u: "unlink fs p = Inr ?fs1" using Cons.prems by (simp add: unlink_def)
  have r1: "read_file ?fs1 q = (if q = p then None else read_file fs q)" for q
    using unlink_Inr(1) [OF u] .
  have "\<forall>q \<in> set ps. is_file ?fs1 q \<and> \<not> is_dir ?fs1 q"
    using Cons.prems by (auto simp: is_file_def r1 is_dir_def)
  moreover have "distinct ps" using Cons.prems by simp
  ultimately obtain fs' where "unlink_all ?fs1 ps = (None, fs')"
    using Cons.IH by blast
  then show ?case by (simp add: u)
qed

lemma no_children:
  "children fs d = [] \<Longrightarrow> q \<noteq> [] \<Longrightarrow> butlast q = d \<Longrightarrow> \<not> is_file fs q \<and> \<not> is_dir fs q"
  using set_children [of fs d] by (auto simp: path_exists_def)

lemma reassemble_ready:
  assumes rdy: "ready fs od fn urls"
    and cont: "list_all2 (\<lambda>u b. \<exists>c. remote u = Retrieved c \<and> bz2_stream cd c = (b, True)) urls bs"
  shows "\<exists>fs'. download_and_concatenate_shards cd remote urls od fn fs =
           (Inr True, fs', [SuccessfullyCreated fn (length (concat bs))]) \<and>
         read_file fs' (od @ [fn]) = Some (gzip_compress cd (concat bs))"
proof -
  define t where "t = ''.temp_'' @ stem fn"
  let ?td = "od @ [t]"
  let ?out = "od @ [fn]"
  let ?tp = "\<lambda>u. child ?td (basename u)"
  from rdy have rdy': "is_dir fs od \<and> \<not> is_file fs ?td \<and> children fs ?td = [] \<and>
      \<not> is_dir fs ?out \<and> ?out \<noteq> ?td \<and> fn \<noteq> ''..'' \<and> distinct (map basename urls) \<and>
      (\<forall>n \<in> set (map basename urls). n \<noteq> [] \<and> n \<noteq> ''.'' \<and> n \<noteq> ''..'')"
    unfolding ready_def Let_def t_def [symmetric] list_all_iff by blast
  then have od: "is_dir fs od" and tdf: "\<not> is_file fs ?td" and ch: "children fs ?td = []"
    and outd: "\<not> is_dir fs ?out" and out_td: "?out \<noteq> ?td" and fn: "fn \<noteq> ''..''"
    and dist: "distinct (map basename urls)"
    and names: "\<forall>u \<in> set urls. basename u \<noteq> [] \<and> basename u \<noteq> ''.'' \<and> basename u \<noteq> ''..''"
    by simp_all
  \<comment> \<open>the temporary directory\<close>
  obtain fs0 where mk: "mkdir_exist_ok fs ?td = Inr fs0"
    and files0: "fs_files fs0 = fs_files fs"
    and dirs0: "set (fs_dirs fs0) = insert ?td (set (fs_dirs fs))"
    using od tdf by (cases "is_dir fs ?td") (auto simp: mkdir_exist_ok_def is_dir_def)
  have isd0: "is_dir fs0 q \<longleftrightarrow> q = ?td \<or> is_dir fs q" for q
    by (simp add: is_dir_def dirs0)
  have read0: "read_file fs0 q = read_file fs q" for q by (simp add: read_file_def files0)
  have tp: "?tp u = ?td @ [basename u]" if "u \<in> set urls" for u
    using names that by (simp add: child_def)
  have under: "\<not> is_file fs q \<and> \<not> is_dir fs q" if "q \<noteq> []" "butlast q = ?td" for q
    using no_children [OF ch that] .
  have under': "\<not> is_file fs (?td @ [n]) \<and> \<not> is_dir fs (?td @ [n])" for n
  proof -
    have "butlast (?td @ [n]) = ?td" by (rule butlast_snoc)
    moreover have "?td @ [n] \<noteq> []" by simp
    ultimately show ?thesis using no_children [OF ch] by blast
  qed
  have td_ne: "?td @ [n] \<noteq> ?td" for n by simp
  \<comment> \<open>the downloads\<close>
  have "\<forall>u \<in> set urls. (\<exists>c. remote u = Retrieved c) \<and> \<not> is_dir fs0 (?tp u) \<and>
       ?tp u \<noteq> [] \<and> last (?tp u) \<noteq> ''..'' \<and> is_dir fs0 (butlast (?tp u))"
  proof
    fix u assume u: "u \<in> set urls"
    have "\<exists>c. remote u = Retrieved c" using list_all2_lhs [OF cont] u by blast
    moreover have "\<not> is_dir fs0 (?tp u)"
      unfolding tp [OF u] isd0 using under' td_ne by blast
    ultimately show "(\<exists>c. remote u = Retrieved c) \<and> \<not> is_dir fs0 (?tp u) \<and>
       ?tp u \<noteq> [] \<and> last (?tp u) \<noteq> ''..'' \<and> is_dir fs0 (butlast (?tp u))"
      using names u by (simp add: tp [OF u] isd0 butlast_append)
  qed
  from download_shards_ok [OF this, of "[]"] obtain fs1 where
    dsh: "download_shards remote ?td urls [] fs0 = (True, map ?tp urls, fs1)" by auto
  note D = download_shards_True [OF dsh]
  have dirs1: "fs_dirs fs1 = fs_dirs fs0" using D by simp
  have isd1: "is_dir fs1 q = is_dir fs0 q" for q by (simp add: is_dir_def dirs1)
  have map_tp: "map ?tp urls = map (\<lambda>u. ?td @ [basename u]) urls" using tp by simp
  have dist_tp: "distinct (map ?tp urls)"
    unfolding map_tp using dist by (simp add: distinct_map inj_on_def)
  have stored: "\<exists>c. remote u = Retrieved c \<and> read_file fs1 (?tp u) = Some c" if "u \<in> set urls" for u
    using D dist_tp that by blast
  have tp_ne: "?tp u \<noteq> ?out" if "u \<in> set urls" for u using tp [OF that] by simp
  \<comment> \<open>the output file\<close>
  have w: "write_file fs1 ?out (gzip_compress cd []) = Inr (store fs1 ?out (gzip_compress cd []))"
    using outd out_td od fn by (intro write_file_ok) (simp_all add: isd1 isd0)
  let ?fsa = "store fs1 ?out (gzip_compress cd [])"
  have "list_all2 (\<lambda>u b. \<exists>c. read_file ?fsa (?tp u) = Some c \<and> bz2_stream cd c = (b, True)) urls bs"
    using cont
  proof (rule list.rel_mono_strong)
    fix u b
    assume u: "u \<in> set urls" and "\<exists>c. remote u = Retrieved c \<and> bz2_stream cd c = (b, True)"
    then show "\<exists>c. read_file ?fsa (?tp u) = Some c \<and> bz2_stream cd c = (b, True)"
      using stored [OF u] tp_ne [OF u] by (auto simp: read_store)
  qed
  then have "list_all2 (\<lambda>p b. \<exists>c. read_file ?fsa p = Some c \<and> bz2_stream cd c = (b, True))
      (map ?tp urls) bs"
    by (simp add: list_all2_map1)
  from concatenate_clean [OF this, of "[]" 0]
  have con: "concatenate cd ?fsa (map ?tp urls) [] 0 = (None, concat bs, length (concat bs))"
    by simp
  let ?fsb = "store ?fsa ?out (gzip_compress cd (concat bs))"
  have readb: "read_file ?fsb q = (if q = ?out then Some (gzip_compress cd (concat bs)) else read_file fs1 q)" for q
    by (simp add: read_store)
  have isdb: "is_dir ?fsb q = is_dir fs0 q" for q by (simp add: is_dir_def dirs_store dirs1)
  have "\<forall>p \<in> set (map ?tp urls). is_file ?fsb p \<and> \<not> is_dir ?fsb p"
  proof
    fix p assume "p \<in> set (map ?tp urls)"
    then obtain u where u: "u \<in> set urls" and p: "p = ?tp u" by auto
    have "is_file ?fsb p" using stored [OF u] tp_ne [OF u] by (auto simp: is_file_def readb p)
    moreover have "\<not> is_dir ?fsb p"
      unfolding p tp [OF u] isdb isd0 using under' td_ne by blast
    ultimately show "is_file ?fsb p \<and> \<not> is_dir ?fsb p" ..
  qed
  from unlink_all_ok [OF dist_tp this] obtain fs3 where
    ul: "unlink_all ?fsb (map ?tp urls) = (None, fs3)" by blast
  note U = unlink_all_None [OF ul]
  \<comment> \<open>the temporary directory is empty again\<close>
  have isd3: "is_dir fs3 q = is_dir fs0 q" for q using U by (simp add: is_dir_def dirs_store dirs1)
  have "set (children fs3 ?td) = {}"
  proof -
    have "\<not> path_exists fs3 q" if q: "q \<noteq> []" "butlast q = ?td" for q
    proof -
      have nd: "\<not> is_dir fs3 q" using under [OF q] q by (auto simp: isd3 isd0)
      have "read_file fs3 q = None"
      proof (cases "q \<in> set (map ?tp urls)")
        case True
        then show ?thesis using U by simp
      next
        case False
        then have "q \<notin> ?tp ` set urls" by simp
        then have "read_file fs1 q = read_file fs0 q" using D by blast
        moreover have "q \<noteq> ?out" using q by auto
        ultimately have "read_file ?fsb q = read_file fs q" by (simp add: readb read0)
        then show ?thesis using U False under [OF q] by (simp add: is_file_def)
      qed
      then show ?thesis using nd by (simp add: path_exists_def is_file_def)
    qed
    then show ?thesis by (auto simp: set_children)
  qed
  then have "children fs3 ?td = []" by simp
  moreover have "is_dir fs3 ?td" by (simp add: isd3 isd0)
  ultimately have rm: "rmdir fs3 ?td = Inr (fs3\<lparr>fs_dirs := removeAll ?td (fs_dirs fs3)\<rparr>)"
    by (simp add: rmdir_def)
  have cc: "concatenate_and_clean cd (map ?tp urls) od fn ?td fs1 =
      (None, fs3\<lparr>fs_dirs := removeAll ?td (fs_dirs fs3)\<rparr>,
       [SuccessfullyCreated fn (length (concat bs))])"
    by (simp add: concatenate_and_clean_def Let_def w con ul rm)
  have run: "download_and_concatenate_shards cd remote urls od fn fs =
      (Inr True, fs3\<lparr>fs_dirs := removeAll ?td (fs_dirs fs3)\<rparr>,
       [SuccessfullyCreated fn (length (concat bs))])"
    unfolding download_and_concatenate_shards_def Let_def t_def [symmetric]
    by (simp add: mk dsh cc)
  show ?thesis using run reassemble_success [OF run cont] by blast
qed


lemma example_shards_ready:
  "ready example_fs [''out''] ''f.json.gz''
     [''http://h/d/index_name=dewiki_content/part-1.json.bz2'',
      ''http://h/d/index_name=dewiki_content/part-10.json.bz2'',
      ''http://h/d/index_name=dewiki_content/part-2.json.bz2'']"
  by (simp add: ready_def stem_def is_dir_def is_file_def read_file_def children_def
      example_fs_def basename_def Let_def)

lemma example_shards_contents:
  "list_all2 (\<lambda>u b. \<exists>c. example_shards u = Retrieved c \<and> bz2_stream example_codec c = (b, True))
     [''http://h/d/index_name=dewiki_content/part-1.json.bz2'',
      ''http://h/d/index_name=dewiki_content/part-10.json.bz2'',
      ''http://h/d/index_name=dewiki_content/part-2.json.bz2''] [''1'', ''10'', ''2'']"
  by (simp add: example_shards_def example_codec_def)

subsection \<open>The claims\<close>


text \<open>
  C8. For every language code, \<open>simple\<close> included, the subdirectory of the shards is
  \<open>index_name={language}wiki_content\<close> and the output file is
  \<open>{language}wiki-{date}-cirrussearch-content.json.gz\<close>: the branch of the source for
  \<open>simple\<close> yields what the general template yields.
\<close>

theorem names_follow_templates:
  "subdir_name lang = ''index_name='' @ lang @ ''wiki_content'' \<and>
   output_filename lang dump_date = lang @ ''wiki-'' @ dump_date @ ''-cirrussearch-content.json.gz''"
  by (simp add: subdir_name_def output_filename_def)

theorem names_follow_templates_witness:
  "subdir_name ''simple'' = ''index_name=simplewiki_content'' \<and>
   output_filename ''simple'' ''20250101'' = ''simplewiki-20250101-cirrussearch-content.json.gz''"
  using names_follow_templates [of "''simple''" "''20250101''"] by simp

text \<open>
  C7, as the claim states it, fails: the target \<open>/\<close> is not empty and is no marker of the
  current or the parent directory, and the parser puts it in neither collection (line 110
  drops a directory name that is empty once its separators are stripped).
\<close>

theorem root_target_in_neither_collection:
  "hrefs [(''a'', [(''href'', Some ''/'')])] = [''/''] \<and> ''/'' \<noteq> [] \<and> \<not> is_marker ''/'' \<and>
   files (feed new_parser [(''a'', [(''href'', Some ''/'')])]) = [] \<and>
   directories (feed new_parser [(''a'', [(''href'', Some ''/'')])]) = []"
  by (simp add: hrefs_def is_marker_def feed_def new_parser_def handle_starttag_def
      handle_attr_def endswith_def rstrip_slash_def)

text \<open>
  C7, amended. For every document, the file entries are the targets that are not empty,
  are no marker and do not end in \<open>/\<close>, in document order; the directory entries are the
  targets that are not empty, are no marker, end in \<open>/\<close> and do not consist of \<open>/\<close>
  alone, each stored with every trailing \<open>/\<close> removed. So a target that is not empty, is
  no marker and has a character other than \<open>/\<close> goes to exactly one collection, no
  directory entry is empty or ends in \<open>/\<close>, and a target made of \<open>/\<close> alone is dropped.
\<close>

theorem parser_partitions_targets:
  "files (feed new_parser doc) = filter placed_file (hrefs doc) \<and>
   directories (feed new_parser doc) = map rstrip_slash (filter placed_dir (hrefs doc)) \<and>
   (\<forall>v. \<not> (placed_file v \<and> placed_dir v)) \<and>
   (\<forall>v. (placed_file v \<or> placed_dir v) = (v \<noteq> [] \<and> \<not> is_marker v \<and> \<not> only_slashes v)) \<and>
   (\<forall>v. placed_file v = (v \<noteq> [] \<and> \<not> is_marker v \<and> \<not> endswith v ''/'')) \<and>
   length (files (feed new_parser doc)) + length (directories (feed new_parser doc)) =
     length (filter (\<lambda>v. v \<noteq> [] \<and> \<not> is_marker v \<and> \<not> only_slashes v) (hrefs doc)) \<and>
   (\<forall>d \<in> set (directories (feed new_parser doc)). d \<noteq> [] \<and> \<not> endswith d ''/'')"
proof -
  have excl: "\<forall>v. \<not> (placed_file v \<and> placed_dir v)"
    by (simp add: placed_file_def placed_dir_def)
  have count: "length (filter placed_file xs) + length (filter placed_dir xs) =
      length (filter (\<lambda>v. v \<noteq> [] \<and> \<not> is_marker v \<and> \<not> only_slashes v) xs)" for xs
  proof (induction xs)
    case Nil
    show ?case by simp
  next
    case (Cons x xs)
    show ?case using Cons.IH placed_cases [of x] excl by auto
  qed
  have dirs: "\<forall>d \<in> set (directories (feed new_parser doc)). d \<noteq> [] \<and> \<not> endswith d ''/''"
    by (auto simp: directories_feed placed_dir_def rstrip_slash_empty rstrip_slash_no_trailing)
  show ?thesis
    using excl dirs count [of "hrefs doc"]
    by (simp add: files_feed directories_feed placed_cases) (simp add: placed_file_def)
qed

theorem parser_partitions_targets_witness:
  "files (feed new_parser
     [(''a'', [(''href'', Some ''../'')]), (''a'', [(''href'', Some ''20250101/'')]),
      (''a'', [(''class'', None), (''href'', Some ''part-1.json.bz2'')]), (''p'', []),
      (''a'', [(''href'', Some ''/'')])]) = [''part-1.json.bz2''] \<and>
   directories (feed new_parser
     [(''a'', [(''href'', Some ''../'')]), (''a'', [(''href'', Some ''20250101/'')]),
      (''a'', [(''class'', None), (''href'', Some ''part-1.json.bz2'')]), (''p'', []),
      (''a'', [(''href'', Some ''/'')])]) = [''20250101''] \<and>
   ''20250101'' \<noteq> [] \<and> \<not> endswith ''20250101'' ''/''"
  using parser_partitions_targets [of
     "[(''a'', [(''href'', Some ''../'')]), (''a'', [(''href'', Some ''20250101/'')]),
      (''a'', [(''class'', None), (''href'', Some ''part-1.json.bz2'')]), (''p'', []),
      (''a'', [(''href'', Some ''/'')])]"]
  by (simp add: hrefs_def placed_file_def placed_dir_def is_marker_def only_slashes_def
      endswith_def rstrip_slash_def)

text \<open>
  What \<open>find_latest_date\<close> computes on a listing: its candidates are the directory names
  that the compiled pattern matches, which are the names of eight digits and also the
  names of eight digits and a final newline (Python's \<open>$\<close>); with no candidate it fails,
  otherwise it returns the greatest candidate of the lexicographic order of strings.
  \<open>202050101\<close> and \<open>2020511\<close> are no candidates.
\<close>

proposition find_latest_date_max:
  "net base_url = Document doc \<Longrightarrow>
   find_latest_date net base_url =
     (if {d \<in> set (directories (feed new_parser doc)). date_pattern_match d} = {}
      then Inl (ErrorFindingLatestDate NoDatesFound)
      else Inr (Max {d \<in> set (directories (feed new_parser doc)). date_pattern_match d})) \<and>
   \<not> date_pattern_match ''202050101'' \<and> \<not> date_pattern_match ''2020511'' \<and>
   (date_pattern_match d \<longleftrightarrow>
      (\<exists>ds. length ds = 8 \<and> list_all is_digit ds \<and> (d = ds \<or> d = ds @ [newline])))"
proof -
  assume doc: "net base_url = Document doc"
  let ?dates = "filter date_pattern_match (directories (feed new_parser doc))"
  have set_eq: "{d \<in> set (directories (feed new_parser doc)). date_pattern_match d} = set ?dates"
    by auto
  have run: "find_latest_date net base_url =
      (if set ?dates = {} then Inl (ErrorFindingLatestDate NoDatesFound)
       else Inr (Max (set ?dates)))"
    using sorted_last_Max [of ?dates]
    by (simp add: find_latest_date_def doc Let_def del: set_filter)
  have ex: "\<not> date_pattern_match ''202050101'' \<and> \<not> date_pattern_match ''2020511''"
    by (simp add: date_pattern_match_def is_digit_def newline_def)
  have char: "date_pattern_match d \<longleftrightarrow>
      (\<exists>ds. length ds = 8 \<and> list_all is_digit ds \<and> (d = ds \<or> d = ds @ [newline]))"
  proof
    assume m: "date_pattern_match d"
    then have "length (take 8 d) = 8 \<and> list_all is_digit (take 8 d) \<and>
        (d = take 8 d \<or> d = take 8 d @ [newline])"
      by (metis append_take_drop_id append_Nil2 date_pattern_match_def)
    then show "\<exists>ds. length ds = 8 \<and> list_all is_digit ds \<and> (d = ds \<or> d = ds @ [newline])"
      by blast
  next
    assume "\<exists>ds. length ds = 8 \<and> list_all is_digit ds \<and> (d = ds \<or> d = ds @ [newline])"
    then show "date_pattern_match d"
      by (auto simp: date_pattern_match_def)
  qed
  show ?thesis using run ex char unfolding set_eq by simp
qed

lemma find_latest_date_max_example:
  "(\<lambda>u. Document [(''a'', [(''href'', Some ''../'')]), (''a'', [(''href'', Some ''20240315/'')]),
       (''a'', [(''href'', Some ''202050101/'')]), (''a'', [(''href'', Some ''20250101/'')]),
       (''a'', [(''href'', Some ''2020511/'')])]) ''http://h/'' =
     Document [(''a'', [(''href'', Some ''../'')]), (''a'', [(''href'', Some ''20240315/'')]),
       (''a'', [(''href'', Some ''202050101/'')]), (''a'', [(''href'', Some ''20250101/'')]),
       (''a'', [(''href'', Some ''2020511/'')])] \<and>
   find_latest_date
     (\<lambda>u. Document [(''a'', [(''href'', Some ''../'')]), (''a'', [(''href'', Some ''20240315/'')]),
       (''a'', [(''href'', Some ''202050101/'')]), (''a'', [(''href'', Some ''20250101/'')]),
       (''a'', [(''href'', Some ''2020511/'')])]) ''http://h/'' = Inr ''20250101''"
  using find_latest_date_max [of
     "\<lambda>u. Document [(''a'', [(''href'', Some ''../'')]), (''a'', [(''href'', Some ''20240315/'')]),
       (''a'', [(''href'', Some ''202050101/'')]), (''a'', [(''href'', Some ''20250101/'')]),
       (''a'', [(''href'', Some ''2020511/'')])]" "''http://h/''"
     "[(''a'', [(''href'', Some ''../'')]), (''a'', [(''href'', Some ''20240315/'')]),
       (''a'', [(''href'', Some ''202050101/'')]), (''a'', [(''href'', Some ''20250101/'')]),
       (''a'', [(''href'', Some ''2020511/'')])]"]
  by (simp add: find_latest_date_def feed_def new_parser_def handle_starttag_def handle_attr_def
      endswith_def rstrip_slash_def date_pattern_match_def is_digit_def newline_def)

text \<open>
  C6 at a failing input: a listing with the directories \<open>20240315\<close>, \<open>20250101\<close> and a
  third whose name is \<open>20250101\<close> followed by a newline. The names of exactly eight
  digits are the first two, and the greatest of them is \<open>20250101\<close>. The third name is
  not eight digits, yet the pattern of line 129 accepts it and \<open>find_latest_date\<close>
  returns it, a string of nine characters, instead of \<open>20250101\<close>.
\<close>

theorem find_latest_date_takes_name_with_newline:
  "directories (feed new_parser [(''a'', [(''href'', Some ''20240315/'')]),
                     (''a'', [(''href'', Some ''20250101/'')]),
                     (''a'', [(''href'', Some (''20250101'' @ [newline] @ ''/''))])]) =
     [''20240315'', ''20250101'', ''20250101'' @ [newline]] \<and>
   find_latest_date
     (\<lambda>u. Document [(''a'', [(''href'', Some ''20240315/'')]),
                     (''a'', [(''href'', Some ''20250101/'')]),
                     (''a'', [(''href'', Some (''20250101'' @ [newline] @ ''/''))])])
     ''http://h/'' = Inr (''20250101'' @ [newline]) \<and>
   length (''20250101'' @ [newline]) = 9 \<and>
   \<not> list_all is_digit (''20250101'' @ [newline]) \<and>
   filter (\<lambda>d. length d = 8 \<and> list_all is_digit d)
     [''20240315'', ''20250101'', ''20250101'' @ [newline]] = [''20240315'', ''20250101''] \<and>
   Max (set [''20240315'', ''20250101'']) = ''20250101''"
  by (simp add: find_latest_date_def feed_def new_parser_def handle_starttag_def handle_attr_def
      endswith_def rstrip_slash_def date_pattern_match_def is_digit_def newline_def)

text \<open>
  C9. Whatever \<open>cleanup_old_dumps\<close> returns, no directory changes, and a file whose
  content is not what it was has been deleted, lies in the output directory and has a
  name that matches \<open>*wiki-*-cirrussearch-content.json.gz\<close> (a name that has \<open>wiki-\<close>
  somewhere and ends, after it, in \<open>-cirrussearch-content.json.gz\<close>). A file is deleted only
  when no confirmation was asked (the flag that skips it) or the answer was \<open>yes\<close> or \<open>y\<close>.
  When a dump exists, confirmation is asked and the answer is anything else, the function
  returns \<open>False\<close> with the file system as it was, and \<open>main\<close> exits with status 1.
\<close>

theorem cleanup_deletes_only_confirmed_dumps:
  assumes "cleanup_old_dumps output_dir confirm stdin fs = (r, fs', prompted)"
  shows "fs_dirs fs' = fs_dirs fs \<and>
    (\<forall>p. read_file fs' p = read_file fs p \<or>
         (read_file fs' p = None \<and> p \<noteq> [] \<and> butlast p = output_dir \<and>
          glob_match dump_pattern (last p))) \<and>
    (\<forall>name. glob_match dump_pattern name \<longleftrightarrow>
         (\<exists>a b. name = a @ ''wiki-'' @ b @ ''-cirrussearch-content.json.gz'')) \<and>
    ((\<exists>p. read_file fs' p \<noteq> read_file fs p) \<longrightarrow> \<not> confirm \<or> confirmed stdin) \<and>
    (glob fs output_dir dump_pattern \<noteq> [] \<and> confirm \<and> declined stdin \<longrightarrow>
       r = Inr False \<and> fs' = fs \<and> main_clean True False output_dir stdin fs = (Exit 1, fs))"
proof -
  from cleanup_cases [OF assms] have frame:
    "fs_dirs fs' = fs_dirs fs \<and>
     (\<forall>p. read_file fs' p = read_file fs p \<or>
         (read_file fs' p = None \<and> p \<in> set (glob fs output_dir dump_pattern)))"
    using unlink_each_frame by blast
  have in_glob: "p \<in> set (glob fs output_dir dump_pattern) \<Longrightarrow>
      p \<noteq> [] \<and> butlast p = output_dir \<and> glob_match dump_pattern (last p)" for p
    by (auto simp: glob_def set_children)
  have only: "\<forall>p. read_file fs' p = read_file fs p \<or>
         (read_file fs' p = None \<and> p \<noteq> [] \<and> butlast p = output_dir \<and>
          glob_match dump_pattern (last p))"
    using frame in_glob by blast
  have unless: "(\<exists>p. read_file fs' p \<noteq> read_file fs p) \<longrightarrow> \<not> confirm \<or> confirmed stdin"
    using cleanup_cases [OF assms] by auto
  have decl: "glob fs output_dir dump_pattern \<noteq> [] \<and> confirm \<and> declined stdin \<longrightarrow>
       r = Inr False \<and> fs' = fs \<and> main_clean True False output_dir stdin fs = (Exit 1, fs)"
    using assms
    by (auto simp: cleanup_old_dumps_def main_clean_def Let_def declined_def answer_def
        split: option.splits)
  show ?thesis using frame only unless decl dump_pattern_iff by blast
qed

theorem cleanup_deletes_only_confirmed_dumps_witness:
  "cleanup_old_dumps [''out''] True (Some ''no'') example_dumps = (Inr False, example_dumps, True) \<and>
   glob example_dumps [''out''] dump_pattern \<noteq> [] \<and> declined (Some ''no'') \<and>
   main_clean True False [''out''] (Some ''no'') example_dumps = (Exit 1, example_dumps) \<and>
   cleanup_old_dumps [''out''] True (Some '' Yes'') example_dumps =
     (Inr True, \<lparr>fs_files = [([''out'', ''notes.txt''], ''n'')], fs_dirs = [[''out'']]\<rparr>, True) \<and>
   confirmed (Some '' Yes'')"
proof -
  have run: "cleanup_old_dumps [''out''] True (Some ''no'') example_dumps = (Inr False, example_dumps, True)"
    by (simp add: cleanup_old_dumps_def glob_example py_lower_def py_strip_def is_space_def
        lower_char_def char_of_def bit_Suc_0_iff)
  have d: "declined (Some ''no'')"
    by (simp add: declined_def answer_def py_lower_def py_strip_def is_space_def lower_char_def
        char_of_def bit_Suc_0_iff)
  have c: "confirmed (Some '' Yes'')"
    by (simp add: confirmed_def answer_def py_lower_def py_strip_def is_space_def lower_char_def
        char_of_def bit_Suc_0_iff)
  have run2: "cleanup_old_dumps [''out''] True (Some '' Yes'') example_dumps =
     (Inr True, \<lparr>fs_files = [([''out'', ''notes.txt''], ''n'')], fs_dirs = [[''out'']]\<rparr>, True)"
    by (simp add: cleanup_old_dumps_def glob_example unlink_example py_lower_def py_strip_def
        is_space_def lower_char_def char_of_def bit_Suc_0_iff)
  show ?thesis
    using cleanup_deletes_only_confirmed_dumps [OF run] cleanup_deletes_only_confirmed_dumps [OF run2]
      run run2 c d glob_example
    by simp
qed

text \<open>
  C10. When nothing in the output directory has a name that matches the pattern,
  \<open>cleanup_old_dumps\<close> returns \<open>True\<close>, leaves the file system as it was and does not call
  \<open>input()\<close>, whatever \<open>confirm\<close> is and whatever the user would have answered.
\<close>

theorem cleanup_without_dumps:
  assumes "\<forall>p. path_exists fs p \<and> p \<noteq> [] \<and> butlast p = output_dir \<longrightarrow>
             \<not> glob_match dump_pattern (last p)"
  shows "cleanup_old_dumps output_dir confirm stdin fs = (Inr True, fs, False)"
proof -
  have "set (glob fs output_dir dump_pattern) = {}"
    using assms by (auto simp: glob_def set_children)
  then have "glob fs output_dir dump_pattern = []" by simp
  then show ?thesis by (simp add: cleanup_old_dumps_def)
qed

theorem cleanup_without_dumps_witness:
  "cleanup_old_dumps [''out''] True None
     \<lparr>fs_files = [([''out'', ''notes.txt''], ''n'')], fs_dirs = [[''out'']]\<rparr> =
   (Inr True, \<lparr>fs_files = [([''out'', ''notes.txt''], ''n'')], fs_dirs = [[''out'']]\<rparr>, False)"
proof -
  have "\<forall>p. path_exists \<lparr>fs_files = [([''out'', ''notes.txt''], ''n'')], fs_dirs = [[''out'']]\<rparr> p \<and>
      p \<noteq> [] \<and> butlast p = [''out''] \<longrightarrow> \<not> glob_match dump_pattern (last p)"
    by (auto simp: path_exists_def is_file_iff is_dir_def dump_pattern_def)
  from cleanup_without_dumps [OF this] show ?thesis .
qed

text \<open>
  C5. When the request for the unencoded directory answers 404, \<open>discover_shard_files\<close>
  requests the directory with its name percent-encoded next, exactly once, and after it
  at most the listing of the date directory; when that retry lists a shard file, the
  result is the sorted shard files under the encoded path and nothing else is requested.
  Any other HTTP status fails at once with the access error, after the one request. The
  encoding turns \<open>=\<close> into \<open>%3D\<close> and keeps \<open>/\<close>.
\<close>

theorem not_found_retries_encoded_once:
  "(net (base_url @ subdir_name lang @ ''/'') = HTTPError 404 \<longrightarrow>
      (\<exists>rest. snd (discover_shard_files net base_url lang date) =
           [base_url @ subdir_name lang @ ''/'', base_url @ quote (subdir_name lang) @ ''/''] @ rest \<and>
           (rest = [] \<or> rest = [base_url])) \<and>
      count_list (snd (discover_shard_files net base_url lang date))
        (base_url @ quote (subdir_name lang) @ ''/'') = 1 \<and>
      (\<forall>doc. net (base_url @ quote (subdir_name lang) @ ''/'') = Document doc \<and>
             shard_files_of doc \<noteq> [] \<longrightarrow>
         discover_shard_files net base_url lang date =
           (Inr (map (\<lambda>f. base_url @ quote (subdir_name lang) @ ''/'' @ f) (shard_files_of doc)),
            [base_url @ subdir_name lang @ ''/'', base_url @ quote (subdir_name lang) @ ''/'']))) \<and>
   (\<forall>code. net (base_url @ subdir_name lang @ ''/'') = HTTPError code \<and> code \<noteq> 404 \<longrightarrow>
      discover_shard_files net base_url lang date =
        (Inl (FailedToAccess code), [base_url @ subdir_name lang @ ''/''])) \<and>
   quote (subdir_name ''en'') = ''index_name%3Denwiki_content'' \<and>
   quote ''='' = ''%3D'' \<and>
   (\<forall>a b. quote (a @ ''/'' @ b) = quote a @ ''/'' @ quote b)"
proof -
  let ?dir = "base_url @ subdir_name lang @ ''/''"
  let ?enc = "base_url @ quote (subdir_name lang) @ ''/''"
  have ne1: "?enc \<noteq> ?dir" using quote_subdir_ne [of lang] by simp
  have ne2: "?enc \<noteq> base_url" by simp
  have nf: "net ?dir = HTTPError 404 \<Longrightarrow>
      snd (discover_shard_files net base_url lang date) = [?dir, ?enc] \<or>
      snd (discover_shard_files net base_url lang date) = [?dir, ?enc, base_url]"
    by (simp add: discover_shard_files_def urlopen_def list_available_indexes_def Let_def)
  have log: "net ?dir = HTTPError 404 \<Longrightarrow>
      \<exists>rest. snd (discover_shard_files net base_url lang date) = [?dir, ?enc] @ rest \<and>
           (rest = [] \<or> rest = [base_url])"
    using nf by auto
  have cnt: "net ?dir = HTTPError 404 \<Longrightarrow>
      count_list (snd (discover_shard_files net base_url lang date)) ?enc = 1"
    using nf quote_subdir_ne [of lang] quote_subdir_ne [of lang, THEN not_sym] by auto
  have retry: "net ?dir = HTTPError 404 \<Longrightarrow>
      \<forall>doc. net ?enc = Document doc \<and> shard_files_of doc \<noteq> [] \<longrightarrow>
         discover_shard_files net base_url lang date =
           (Inr (map (\<lambda>f. base_url @ quote (subdir_name lang) @ ''/'' @ f) (shard_files_of doc)),
            [?dir, ?enc])"
    by (simp add: discover_shard_files_def urlopen_def Let_def)
  have other: "\<forall>code. net ?dir = HTTPError code \<and> code \<noteq> 404 \<longrightarrow>
      discover_shard_files net base_url lang date = (Inl (FailedToAccess code), [?dir])"
    by (simp add: discover_shard_files_def urlopen_def Let_def)
  have q1: "quote (subdir_name ''en'') = ''index_name%3Denwiki_content''"
    by (simp add: quote_def quote_char_def subdir_name_def is_unreserved_def is_digit_def
        utf8_def percent_def hex_digit_def)
  have q3: "\<forall>a b. quote (a @ ''/'' @ b) = quote a @ ''/'' @ quote b"
    by (simp add: quote_def quote_char_def)
  have A: "net ?dir = HTTPError 404 \<longrightarrow>
      (\<exists>rest. snd (discover_shard_files net base_url lang date) = [?dir, ?enc] @ rest \<and>
           (rest = [] \<or> rest = [base_url])) \<and>
      count_list (snd (discover_shard_files net base_url lang date)) ?enc = 1 \<and>
      (\<forall>doc. net ?enc = Document doc \<and> shard_files_of doc \<noteq> [] \<longrightarrow>
         discover_shard_files net base_url lang date =
           (Inr (map (\<lambda>f. base_url @ quote (subdir_name lang) @ ''/'' @ f) (shard_files_of doc)),
            [?dir, ?enc]))"
    using log cnt retry by blast
  show ?thesis using A other q1 quote_equals q3 by - (intro conjI; assumption)
qed

theorem not_found_retries_encoded_once_witness:
  "example_net (''http://h/d/'' @ subdir_name ''en'' @ ''/'') = HTTPError 404 \<and>
   discover_shard_files example_net ''http://h/d/'' ''en'' ''20250101'' =
     (Inr [''http://h/d/index_name%3Denwiki_content/part-10.json.bz2'',
           ''http://h/d/index_name%3Denwiki_content/part-2.json.bz2''],
      [''http://h/d/index_name=enwiki_content/'', ''http://h/d/index_name%3Denwiki_content/'']) \<and>
   count_list (snd (discover_shard_files example_net ''http://h/d/'' ''en'' ''20250101''))
     (''http://h/d/'' @ quote (subdir_name ''en'') @ ''/'') = 1 \<and>
   example_net (''http://h/d/'' @ subdir_name ''fr'' @ ''/'') = HTTPError 503 \<and>
   (503::nat) \<noteq> 404 \<and>
   discover_shard_files example_net ''http://h/d/'' ''fr'' ''20250101'' =
     (Inl (FailedToAccess 503), [''http://h/d/'' @ subdir_name ''fr'' @ ''/''])"
proof -
  have a: "example_net (''http://h/d/'' @ subdir_name ''en'' @ ''/'') = HTTPError 404"
    by (simp add: example_net_def subdir_name_def)
  have b: "example_net (''http://h/d/'' @ subdir_name ''fr'' @ ''/'') = HTTPError 503 \<and>
      (503::nat) \<noteq> 404"
    by (simp add: example_net_def subdir_name_def)
  have en: "count_list (snd (discover_shard_files example_net ''http://h/d/'' ''en'' ''20250101''))
     (''http://h/d/'' @ quote (subdir_name ''en'') @ ''/'') = 1"
    using not_found_retries_encoded_once [of example_net "''http://h/d/''" "''en''" "''20250101''"] a
    by blast
  have fr: "discover_shard_files example_net ''http://h/d/'' ''fr'' ''20250101'' =
     (Inl (FailedToAccess 503), [''http://h/d/'' @ subdir_name ''fr'' @ ''/''])"
    using not_found_retries_encoded_once [of example_net "''http://h/d/''" "''fr''" "''20250101''"] b
    by blast
  show ?thesis
    using a b en fr example_discover by - (intro conjI; (elim conjE)?; assumption)
qed


text \<open>
  C2. Whenever \<open>discover_shard_files\<close> returns, it returns the URLs of exactly the listed
  files that end in \<open>.json.bz2\<close> (with their multiplicities), under the directory that
  answered, in ascending lexicographic order of the file names: \<open>part-1\<close>, \<open>part-10\<close>,
  \<open>part-2\<close>. Reassembling that list on a file system where the run can go through
  returns \<open>True\<close> and writes the payloads of its shards in the order of the list, and so
  does every run over that list that returns \<open>True\<close>.
\<close>

theorem shards_sorted_lexicographically:
  assumes "discover_shard_files net base_url lang date = (Inr urls, log)"
  shows "(\<exists>doc prefix names.
      (net (base_url @ subdir_name lang @ ''/'') = Document doc \<and>
         prefix = base_url @ subdir_name lang @ ''/'' \<or>
       net (base_url @ subdir_name lang @ ''/'') = HTTPError 404 \<and>
         net (base_url @ quote (subdir_name lang) @ ''/'') = Document doc \<and>
         prefix = base_url @ quote (subdir_name lang) @ ''/'') \<and>
      urls = map (\<lambda>f. prefix @ f) names \<and> sorted names \<and>
      mset names = mset (filter (\<lambda>f. endswith f ''.json.bz2'') (files (feed new_parser doc)))) \<and>
    sort [''part-2.json.bz2'', ''part-1.json.bz2'', ''part-10.json.bz2''] =
      [''part-1.json.bz2'', ''part-10.json.bz2'', ''part-2.json.bz2''] \<and>
    (\<forall>cd remote output_dir filename fs bs.
       ready fs output_dir filename urls \<and>
       list_all2 (\<lambda>u b. \<exists>c. remote u = Retrieved c \<and> bz2_stream cd c = (b, True)) urls bs \<longrightarrow>
       (\<exists>fs'. download_and_concatenate_shards cd remote urls output_dir filename fs =
                (Inr True, fs', [SuccessfullyCreated filename (length (concat bs))]) \<and>
              read_file fs' (output_dir @ [filename]) = Some (gzip_compress cd (concat bs)))) \<and>
    (\<forall>cd remote output_dir filename fs fs' msgs bs.
       download_and_concatenate_shards cd remote urls output_dir filename fs = (Inr True, fs', msgs) \<and>
       list_all2 (\<lambda>u b. \<exists>c. remote u = Retrieved c \<and> bz2_stream cd c = (b, True)) urls bs \<longrightarrow>
       read_file fs' (output_dir @ [filename]) = Some (gzip_compress cd (concat bs)))"
proof -
  from discover_Inr [OF assms] obtain doc prefix where
    src: "net (base_url @ subdir_name lang @ ''/'') = Document doc \<and>
         prefix = base_url @ subdir_name lang @ ''/'' \<or>
       net (base_url @ subdir_name lang @ ''/'') = HTTPError 404 \<and>
         net (base_url @ quote (subdir_name lang) @ ''/'') = Document doc \<and>
         prefix = base_url @ quote (subdir_name lang) @ ''/''"
    and urls: "urls = map (\<lambda>f. prefix @ f) (shard_files_of doc)"
    by blast
  have s: "sorted (shard_files_of doc)" by (simp add: shard_files_of_def)
  have m: "mset (shard_files_of doc) =
      mset (filter (\<lambda>f. endswith f ''.json.bz2'') (files (feed new_parser doc)))"
    by (simp add: shard_files_of_def)
  have A: "\<exists>doc prefix names.
      (net (base_url @ subdir_name lang @ ''/'') = Document doc \<and>
         prefix = base_url @ subdir_name lang @ ''/'' \<or>
       net (base_url @ subdir_name lang @ ''/'') = HTTPError 404 \<and>
         net (base_url @ quote (subdir_name lang) @ ''/'') = Document doc \<and>
         prefix = base_url @ quote (subdir_name lang) @ ''/'') \<and>
      urls = map (\<lambda>f. prefix @ f) names \<and> sorted names \<and>
      mset names = mset (filter (\<lambda>f. endswith f ''.json.bz2'') (files (feed new_parser doc)))"
    using src urls s m by blast
  have B: "sort [''part-2.json.bz2'', ''part-1.json.bz2'', ''part-10.json.bz2''] =
      [''part-1.json.bz2'', ''part-10.json.bz2'', ''part-2.json.bz2'']"
    by simp
  have C: "\<forall>cd remote output_dir filename fs bs.
       ready fs output_dir filename urls \<and>
       list_all2 (\<lambda>u b. \<exists>c. remote u = Retrieved c \<and> bz2_stream cd c = (b, True)) urls bs \<longrightarrow>
       (\<exists>fs'. download_and_concatenate_shards cd remote urls output_dir filename fs =
                (Inr True, fs', [SuccessfullyCreated filename (length (concat bs))]) \<and>
              read_file fs' (output_dir @ [filename]) = Some (gzip_compress cd (concat bs)))"
    using reassemble_ready by blast
  have D: "\<forall>cd remote output_dir filename fs fs' msgs bs.
       download_and_concatenate_shards cd remote urls output_dir filename fs = (Inr True, fs', msgs) \<and>
       list_all2 (\<lambda>u b. \<exists>c. remote u = Retrieved c \<and> bz2_stream cd c = (b, True)) urls bs \<longrightarrow>
       read_file fs' (output_dir @ [filename]) = Some (gzip_compress cd (concat bs))"
    using reassemble_success by blast
  show ?thesis using A B C D by - (intro conjI; assumption)
qed

theorem shards_sorted_lexicographically_witness:
  "discover_shard_files example_net ''http://h/d/'' ''de'' ''20250101'' =
     (Inr [''http://h/d/index_name=dewiki_content/part-1.json.bz2'',
           ''http://h/d/index_name=dewiki_content/part-10.json.bz2'',
           ''http://h/d/index_name=dewiki_content/part-2.json.bz2''],
      [''http://h/d/index_name=dewiki_content/'']) \<and>
   ready example_fs [''out''] ''f.json.gz''
     [''http://h/d/index_name=dewiki_content/part-1.json.bz2'',
      ''http://h/d/index_name=dewiki_content/part-10.json.bz2'',
      ''http://h/d/index_name=dewiki_content/part-2.json.bz2''] \<and>
   list_all2 (\<lambda>u b. \<exists>c. example_shards u = Retrieved c \<and> bz2_stream example_codec c = (b, True))
     [''http://h/d/index_name=dewiki_content/part-1.json.bz2'',
      ''http://h/d/index_name=dewiki_content/part-10.json.bz2'',
      ''http://h/d/index_name=dewiki_content/part-2.json.bz2''] [''1'', ''10'', ''2''] \<and>
   (\<exists>fs'. download_and_concatenate_shards example_codec example_shards
            [''http://h/d/index_name=dewiki_content/part-1.json.bz2'',
             ''http://h/d/index_name=dewiki_content/part-10.json.bz2'',
             ''http://h/d/index_name=dewiki_content/part-2.json.bz2''] [''out''] ''f.json.gz'' example_fs =
            (Inr True, fs', [SuccessfullyCreated ''f.json.gz'' 4]) \<and>
          read_file fs' [''out'', ''f.json.gz''] = Some ''G1102'')"
proof -
  let ?urls = "[''http://h/d/index_name=dewiki_content/part-1.json.bz2'',
      ''http://h/d/index_name=dewiki_content/part-10.json.bz2'',
      ''http://h/d/index_name=dewiki_content/part-2.json.bz2'']"
  note T = shards_sorted_lexicographically [OF example_discover_de]
  note C = T [THEN conjunct2, THEN conjunct2, THEN conjunct1, rule_format,
      OF conjI, OF example_shards_ready example_shards_contents]
  then obtain fs' where run: "download_and_concatenate_shards example_codec example_shards ?urls [''out'']
            ''f.json.gz'' example_fs =
            (Inr True, fs', [SuccessfullyCreated ''f.json.gz'' (length (concat [''1'', ''10'', ''2'']))])"
    by (elim exE conjE)
  note rd = T [THEN conjunct2, THEN conjunct2, THEN conjunct2, rule_format,
      OF conjI, OF run example_shards_contents]
  have "length (concat [''1'', ''10'', ''2'']) = 4" by simp
  moreover have "gzip_compress example_codec (concat [''1'', ''10'', ''2'']) = ''G1102''"
    by (simp add: example_codec_def)
  moreover have "[''out''] @ [''f.json.gz''] = [''out'', ''f.json.gz'']" by simp
  ultimately have "download_and_concatenate_shards example_codec example_shards ?urls [''out'']
            ''f.json.gz'' example_fs = (Inr True, fs', [SuccessfullyCreated ''f.json.gz'' 4]) \<and>
          read_file fs' [''out'', ''f.json.gz''] = Some ''G1102''"
    using run rd by (simp only:)
  then have "\<exists>fs'. download_and_concatenate_shards example_codec example_shards ?urls [''out'']
            ''f.json.gz'' example_fs = (Inr True, fs', [SuccessfullyCreated ''f.json.gz'' 4]) \<and>
          read_file fs' [''out'', ''f.json.gz''] = Some ''G1102''"
    by (rule exI [of _ fs'])
  then show ?thesis
    using example_discover_de example_shards_ready example_shards_contents
    by - (intro conjI; assumption)
qed

text \<open>
  C1, as the claim states it, fails for N = 0: with no shard at all the reassembler
  returns \<open>True\<close> and leaves an output file that decompresses to nothing.
\<close>

theorem empty_shard_list_succeeds:
  "download_and_concatenate_shards example_codec example_remote [] [''out''] ''f.json.gz'' example_fs =
     (Inr True, \<lparr>fs_files = [([''out'', ''f.json.gz''], ''G'')], fs_dirs = [[''out'']]\<rparr>,
      [SuccessfullyCreated ''f.json.gz'' 0]) \<and>
   example_gunzip ''G'' = Some []"
  using example_empty_run by (simp add: example_gunzip_def)


text \<open>
  C1, amended. For every list of shard URLs (the empty one too) whose contents decompress
  to \<open>b1 .. bN\<close>, a run of \<open>download_and_concatenate_shards\<close> that returns \<open>True\<close> leaves
  an output file that gzip-decompresses to \<open>b1 @ ... @ bN\<close> in the listed order. The
  empty list is refused before the reassembler: \<open>discover_shard_files\<close> never returns it.
\<close>

theorem reassembly_concatenates_in_order:
  assumes "\<forall>x. gunzip (gzip_compress cd x) = Some x"
    and "download_and_concatenate_shards cd remote shard_urls output_dir filename fs =
           (Inr True, fs', msgs)"
    and "list_all2 (\<lambda>u b. \<exists>c. remote u = Retrieved c \<and> bz2_stream cd c = (b, True)) shard_urls bs"
  shows "(\<exists>z. read_file fs' (output_dir @ [filename]) = Some z \<and> gunzip z = Some (concat bs)) \<and>
    (\<forall>net base_url lang date urls log.
       discover_shard_files net base_url lang date = (Inr urls, log) \<longrightarrow> urls \<noteq> [])"
proof -
  have "read_file fs' (output_dir @ [filename]) = Some (gzip_compress cd (concat bs))"
    using reassemble_success [OF assms(2,3)] by simp
  then have "\<exists>z. read_file fs' (output_dir @ [filename]) = Some z \<and> gunzip z = Some (concat bs)"
    using assms(1) by simp
  then show ?thesis using discover_nonempty by blast
qed

theorem reassembly_concatenates_in_order_witness:
  "(\<forall>x. example_gunzip (gzip_compress example_codec x) = Some x) \<and>
   download_and_concatenate_shards example_codec example_remote
     [''http://h/a.json.bz2'', ''http://h/b.json.bz2''] [''out''] ''f.json.gz'' example_fs =
   (Inr True, \<lparr>fs_files = [([''out'', ''f.json.gz''], ''Gabcde'')], fs_dirs = [[''out'']]\<rparr>,
    [SuccessfullyCreated ''f.json.gz'' 5]) \<and>
   list_all2 (\<lambda>u b. \<exists>c. example_remote u = Retrieved c \<and> bz2_stream example_codec c = (b, True))
     [''http://h/a.json.bz2'', ''http://h/b.json.bz2''] [''abc'', ''de''] \<and>
   (\<exists>z. read_file \<lparr>fs_files = [([''out'', ''f.json.gz''], ''Gabcde'')], fs_dirs = [[''out'']]\<rparr>
          ([''out''] @ [''f.json.gz'']) = Some z \<and>
        example_gunzip z = Some (concat [''abc'', ''de'']))"
proof -
  have "\<exists>z. read_file \<lparr>fs_files = [([''out'', ''f.json.gz''], ''Gabcde'')], fs_dirs = [[''out'']]\<rparr>
          ([''out''] @ [''f.json.gz'']) = Some z \<and>
        example_gunzip z = Some (concat [''abc'', ''de''])"
    using reassembly_concatenates_in_order [OF example_roundtrip example_run example_contents]
    by blast
  then show ?thesis
    using example_roundtrip example_run example_contents by - (intro conjI; assumption)
qed






text \<open>
  C3 at a failing input: the second of two downloads breaks after the local file was
  opened. The function returns \<open>False\<close>, the file of the first shard is gone, but the
  partial file of the second shard is still there (it never entered
  \<open>downloaded_shards\<close>), and so the temporary directory could not be removed either.
\<close>

theorem failed_download_leaves_partial_shard:
  "example_remote ''http://h/c.json.bz2'' = Broken (Some ''Bx'') \<and>
   download_and_concatenate_shards example_codec example_remote
     [''http://h/a.json.bz2'', ''http://h/c.json.bz2''] [''out''] ''f.json.gz'' example_fs =
   (Inr False,
    \<lparr>fs_files = [([''out'', ''.temp_f.json'', ''c.json.bz2''], ''Bx'')],
      fs_dirs = [[''out'', ''.temp_f.json''], [''out'']]\<rparr>, []) \<and>
   is_file \<lparr>fs_files = [([''out'', ''.temp_f.json'', ''c.json.bz2''], ''Bx'')],
      fs_dirs = [[''out'', ''.temp_f.json''], [''out'']]\<rparr> [''out'', ''.temp_f.json'', ''c.json.bz2''] \<and>
   is_dir \<lparr>fs_files = [([''out'', ''.temp_f.json'', ''c.json.bz2''], ''Bx'')],
      fs_dirs = [[''out'', ''.temp_f.json''], [''out'']]\<rparr> [''out'', ''.temp_f.json'']"
  using example_broken_run by (simp add: example_remote_def is_file_def read_file_def is_dir_def)


end
